theory Spec2Isabelle
  imports Complex_Main "HOL-Library.AList" "HOL-Library.Multiset"
begin

section \<open>Python values, dictionaries and exceptions\<close>

text \<open>
  Text is a list of characters, each character standing for one code point below 256,
  so that \<open>length\<close> counts what Python's \<open>len\<close> counts.  Python floats and ints are
  modelled as exact rationals: rounding is not represented.

  A result record of the search pipeline is a Python \<open>dict\<close> with string keys.  It is
  an association list in insertion order; \<open>map_of\<close> reads a key and \<open>AList.update\<close>
  assigns one (replacing in place, or appending a new key at the end), as a Python
  dict does.
\<close>

datatype val = VNone | VStr string | VNum rat | VList "string list"

type_synonym doc = "(string \<times> val) list"

datatype error =
    TypeError
  | ZeroDivisionError
  | KeyError
  | ValueError
  | HTTPError string
  | OSError
  | StoreError

text \<open>Truth value of a Python object (\<open>not x\<close> is its negation).\<close>

fun truthy :: "val \<Rightarrow> bool" where
  "truthy VNone = False"
| "truthy (VStr s) = (s \<noteq> [])"
| "truthy (VNum x) = (x \<noteq> 0)"
| "truthy (VList xs) = (xs \<noteq> [])"

text \<open>A list cannot be a dictionary key: using it as one raises \<open>TypeError\<close>.\<close>

fun hashable :: "val \<Rightarrow> bool" where
  "hashable (VList xs) = False"
| "hashable v = True"

text \<open>\<open>d.get(key)\<close> and \<open>d.get(key, default)\<close>.\<close>

definition dict_get :: "doc \<Rightarrow> string \<Rightarrow> val" where
  "dict_get d key = (case map_of d key of None \<Rightarrow> VNone | Some v \<Rightarrow> v)"

definition dict_get_default :: "doc \<Rightarrow> string \<Rightarrow> val \<Rightarrow> val" where
  "dict_get_default d key dflt = (case map_of d key of None \<Rightarrow> dflt | Some v \<Rightarrow> v)"

text \<open>A value used as a number in float arithmetic.\<close>

fun as_number :: "val \<Rightarrow> error + rat" where
  "as_number (VNum x) = Inr x"
| "as_number v = Inl TypeError"

section \<open>fusion.py\<close>

subsection \<open>\<open>reciprocal_rank_fusion\<close>\<close>

text \<open>The three dictionaries the function fills, each keyed by document id.\<close>

record rrf_state =
  scores :: "(val \<times> rat) list"
  docs :: "(val \<times> doc) list"
  top_ranks :: "(val \<times> nat) list"

definition rrf_empty :: rrf_state where
  "rrf_empty = \<lparr>scores = [], docs = [], top_ranks = []\<rparr>"

text \<open>The body of the inner loop, for the document \<open>d\<close> at position \<open>rank\<close> of its list.\<close>

definition rrf_visit :: "int \<Rightarrow> string \<Rightarrow> nat \<Rightarrow> doc \<Rightarrow> rrf_state \<Rightarrow> error + rrf_state" where
  "rrf_visit k id_key rank d st =
     (let doc_id = dict_get d id_key in
      if \<not> truthy doc_id then Inr st
      else if \<not> hashable doc_id then Inl TypeError
      else
        let st1 = (if map_of (scores st) doc_id = None
                   then st\<lparr>scores := AList.update doc_id 0 (scores st),
                           docs := AList.update doc_id d (docs st),
                           top_ranks := AList.update doc_id rank (top_ranks st)\<rparr>
                   else st) in
        if k + int rank + 1 = 0 then Inl ZeroDivisionError
        else
          (case map_of (scores st1) doc_id of
             None \<Rightarrow> Inl KeyError
           | Some s \<Rightarrow>
               (case map_of (top_ranks st1) doc_id of
                  None \<Rightarrow> Inl KeyError
                | Some t \<Rightarrow>
                    Inr (st1\<lparr>scores := AList.update doc_id (s + 1 / of_int (k + int rank + 1)) (scores st1),
                             top_ranks := (if rank < t then AList.update doc_id rank (top_ranks st1)
                                           else top_ranks st1)\<rparr>))))"

fun rrf_inner :: "int \<Rightarrow> string \<Rightarrow> nat \<Rightarrow> doc list \<Rightarrow> rrf_state \<Rightarrow> error + rrf_state" where
  "rrf_inner k id_key rank [] st = Inr st"
| "rrf_inner k id_key rank (d # ds) st =
     (case rrf_visit k id_key rank d st of
        Inl e \<Rightarrow> Inl e
      | Inr st' \<Rightarrow> rrf_inner k id_key (Suc rank) ds st')"

fun rrf_outer :: "int \<Rightarrow> string \<Rightarrow> doc list list \<Rightarrow> rrf_state \<Rightarrow> error + rrf_state" where
  "rrf_outer k id_key [] st = Inr st"
| "rrf_outer k id_key (results # rest) st =
     (case rrf_inner k id_key 0 results st of
        Inl e \<Rightarrow> Inl e
      | Inr st' \<Rightarrow> rrf_outer k id_key rest st')"

text \<open>The top-rank bonus: a pass over \<open>top_ranks.items()\<close> that updates \<open>scores\<close>.\<close>

fun apply_bonus :: "(val \<times> nat) list \<Rightarrow> (val \<times> rat) list \<Rightarrow> error + (val \<times> rat) list" where
  "apply_bonus [] sc = Inr sc"
| "apply_bonus ((doc_id, best_rank) # rest) sc =
     (if best_rank = 0 then
        (case map_of sc doc_id of
           None \<Rightarrow> Inl KeyError
         | Some s \<Rightarrow> apply_bonus rest (AList.update doc_id (s + 5 / 100) sc))
      else if best_rank \<le> 2 then
        (case map_of sc doc_id of
           None \<Rightarrow> Inl KeyError
         | Some s \<Rightarrow> apply_bonus rest (AList.update doc_id (s + 2 / 100) sc))
      else apply_bonus rest sc)"

text \<open>
  \<open>sorted(scores.items(), key=lambda x: x[1], reverse=True)\<close>: Python's sort is stable
  also with \<open>reverse=True\<close>, so items of equal score keep their dictionary order.
  \<open>sort_key\<close> is a stable insertion sort; sorting by the negated score gives the
  descending order.
\<close>

definition sort_scores :: "(val \<times> rat) list \<Rightarrow> (val \<times> rat) list" where
  "sort_scores sc = sort_key (\<lambda>x. - snd x) sc"

fun build_results :: "string \<Rightarrow> (val \<times> doc) list \<Rightarrow> (val \<times> rat) list \<Rightarrow> doc list \<Rightarrow> error + doc list" where
  "build_results score_key dcs [] results = Inr results"
| "build_results score_key dcs ((doc_id, score) # rest) results =
     (case map_of dcs doc_id of
        None \<Rightarrow> Inl KeyError
      | Some d \<Rightarrow>
          build_results score_key dcs rest
            (results @ [AList.update ''rrf_rank'' (VNum (of_nat (length results)))
                          (AList.update score_key (VNum score) d)]))"

definition reciprocal_rank_fusion ::
    "doc list list \<Rightarrow> int \<Rightarrow> string \<Rightarrow> string \<Rightarrow> bool \<Rightarrow> error + doc list" where
  "reciprocal_rank_fusion result_lists k id_key score_key top_rank_bonus =
     (if result_lists = [] then Inr []
      else
        (case rrf_outer k id_key result_lists rrf_empty of
           Inl e \<Rightarrow> Inl e
         | Inr st \<Rightarrow>
             (case (if top_rank_bonus then apply_bonus (top_ranks st) (scores st)
                    else Inr (scores st)) of
                Inl e \<Rightarrow> Inl e
              | Inr sc \<Rightarrow> build_results score_key (docs st) (sort_scores sc) [])))"

subsection \<open>\<open>position_aware_blend\<close>\<close>

definition rrf_weight :: "nat \<Rightarrow> rat" where
  "rrf_weight i = (if i < 3 then 75 / 100 else if i < 10 then 60 / 100 else 40 / 100)"

text \<open>\<open>rerank_scores.get(doc_id, 0)\<close>; the lookup hashes its key.\<close>

definition rerank_get :: "(val \<times> rat) list \<Rightarrow> val \<Rightarrow> error + rat" where
  "rerank_get rerank_scores doc_id =
     (if \<not> hashable doc_id then Inl TypeError
      else (case map_of rerank_scores doc_id of None \<Rightarrow> Inr 0 | Some s \<Rightarrow> Inr s))"

definition blend_one :: "string \<Rightarrow> (val \<times> rat) list \<Rightarrow> nat \<Rightarrow> doc \<Rightarrow> error + doc" where
  "blend_one id_key rerank_scores i d =
     (let doc_id = dict_get d id_key;
          rrf_score = dict_get_default d ''score'' (VNum 0)
      in case rerank_get rerank_scores doc_id of
           Inl e \<Rightarrow> Inl e
         | Inr rerank_score \<Rightarrow>
             (case as_number rrf_score of
                Inl e \<Rightarrow> Inl e
              | Inr r \<Rightarrow>
                  let w = rrf_weight i;
                      rerank_weight = 1 - w;
                      blended_score = w * r + rerank_weight * rerank_score
                  in Inr (AList.update ''score'' (VNum blended_score)
                           (AList.update ''rerank_score'' (VNum rerank_score)
                             (AList.update ''rrf_score'' rrf_score d)))))"

fun blend_loop :: "string \<Rightarrow> (val \<times> rat) list \<Rightarrow> nat \<Rightarrow> doc list \<Rightarrow> doc list \<Rightarrow> error + doc list" where
  "blend_loop id_key rerank_scores i [] results = Inr results"
| "blend_loop id_key rerank_scores i (d # ds) results =
     (case blend_one id_key rerank_scores i d of
        Inl e \<Rightarrow> Inl e
      | Inr r \<Rightarrow> blend_loop id_key rerank_scores (Suc i) ds (results @ [r]))"

text \<open>
  The sort key \<open>x["score"]\<close>.  Every record the loop built has a number there; the
  other cases are listed only because the function has to be total.
\<close>

definition score_value :: "doc \<Rightarrow> rat" where
  "score_value d = (case dict_get d ''score'' of VNum x \<Rightarrow> x | _ \<Rightarrow> 0)"

definition position_aware_blend ::
    "doc list \<Rightarrow> (val \<times> rat) list \<Rightarrow> string \<Rightarrow> error + doc list" where
  "position_aware_blend rrf_results rerank_scores id_key =
     (case blend_loop id_key rerank_scores 0 rrf_results [] of
        Inl e \<Rightarrow> Inl e
      | Inr results \<Rightarrow> Inr (sort_key (\<lambda>x. - score_value x) results))"

subsection \<open>\<open>normalize_scores\<close>\<close>

text \<open>
  \<open>min\<close> and \<open>max\<close> compare the scores with each other: numbers with numbers, strings
  with strings, lists with lists; any other pair raises \<open>TypeError\<close>.  A single score
  is compared with nothing.
\<close>

fun comparable :: "val \<Rightarrow> val \<Rightarrow> bool" where
  "comparable (VNum x) (VNum y) = True"
| "comparable (VStr s) (VStr t) = True"
| "comparable (VList xs) (VList ys) = True"
| "comparable v w = False"

fun numbers :: "val list \<Rightarrow> error + rat list" where
  "numbers [] = Inr []"
| "numbers (v # vs) =
     (case as_number v of
        Inl e \<Rightarrow> Inl e
      | Inr x \<Rightarrow> (case numbers vs of Inl e \<Rightarrow> Inl e | Inr xs \<Rightarrow> Inr (x # xs)))"

definition normalize_scores :: "doc list \<Rightarrow> string \<Rightarrow> error + doc list" where
  "normalize_scores results score_key =
     (case map (\<lambda>r. dict_get_default r score_key (VNum 0)) results of
        [] \<Rightarrow> Inr results
      | v # vs \<Rightarrow>
          if \<not> list_all (comparable v) vs then Inl TypeError
          else if list_all (\<lambda>w. w = v) vs
          then Inr (map (AList.update score_key (VNum 1)) results)
          else
            (case numbers (v # vs) of
               Inl e \<Rightarrow> Inl e
             | Inr xs \<Rightarrow>
                 let min_score = fold min xs (hd xs);
                     max_score = fold max xs (hd xs)
                 in Inr (map (\<lambda>(r, old_score).
                               AList.update score_key
                                 (VNum ((old_score - min_score) / (max_score - min_score))) r)
                             (zip results xs))))"
subsection \<open>What the fusion functions are specified to compute\<close>

text \<open>
  The definitions of this subsection follow the specification's words, not the code:
  they say which ranks a document id appears at, in which order ids are first observed,
  and what the fused score of a list of ranks is.  The theorems compare the code with
  them.
\<close>

text \<open>The ranks (0-based) at which a document with id \<open>v\<close> appears, list by list.\<close>

definition ranks_of :: "string \<Rightarrow> val \<Rightarrow> doc list list \<Rightarrow> nat list" where
  "ranks_of id_key v ls =
     concat (map (\<lambda>l. map fst (filter (\<lambda>p. dict_get (snd p) id_key = v) (enumerate 0 l))) ls)"

text \<open>Order-preserving removal of duplicates that keeps the first occurrence.\<close>

fun first_occ :: "'a list \<Rightarrow> 'a list" where
  "first_occ [] = []"
| "first_occ (x # xs) = x # filter (\<lambda>y. y \<noteq> x) (first_occ xs)"

text \<open>The ids borne by the documents, in the order of their first observation.\<close>

definition seen_ids :: "string \<Rightarrow> doc list list \<Rightarrow> val list" where
  "seen_ids id_key ls =
     first_occ (filter truthy (concat (map (map (\<lambda>d. dict_get d id_key)) ls)))"

definition rrf_sum :: "int \<Rightarrow> nat list \<Rightarrow> rat" where
  "rrf_sum k rs = sum_list (map (\<lambda>r. 1 / of_int (k + int r + 1)) rs)"

definition rank_bonus :: "nat \<Rightarrow> rat" where
  "rank_bonus best_rank = (if best_rank = 0 then 5 / 100 else if best_rank \<le> 2 then 2 / 100 else 0)"

definition fused_score :: "int \<Rightarrow> bool \<Rightarrow> nat list \<Rightarrow> rat" where
  "fused_score k top_rank_bonus rs =
     rrf_sum k rs + (if top_rank_bonus then rank_bonus (Min (set rs)) else 0)"

text \<open>A numeric field of a record, read as a number (0 when absent).\<close>

definition num_field :: "string \<Rightarrow> doc \<Rightarrow> rat" where
  "num_field key d = (case dict_get d key of VNum x \<Rightarrow> x | _ \<Rightarrow> 0)"

text \<open>A record of the fused list: the first observed copy with score and position set.\<close>

definition decorate :: "string \<Rightarrow> doc \<Rightarrow> rat \<Rightarrow> nat \<Rightarrow> doc" where
  "decorate score_key d s i =
     AList.update ''rrf_rank'' (VNum (of_nat i)) (AList.update score_key (VNum s) d)"

definition rerank_or_zero :: "(val \<times> rat) list \<Rightarrow> val \<Rightarrow> rat" where
  "rerank_or_zero rerank_scores doc_id =
     (case map_of rerank_scores doc_id of None \<Rightarrow> 0 | Some s \<Rightarrow> s)"

subsection \<open>The loop state as a function of the documents visited so far\<close>

text \<open>
  The visits of the two nested loops that pass the \<open>if not doc_id: continue\<close> test, as
  pairs of rank and document, in the order the loops make them.
\<close>

definition visited :: "string \<Rightarrow> nat \<Rightarrow> doc list \<Rightarrow> (nat \<times> doc) list" where
  "visited id_key r ds = filter (\<lambda>p. truthy (dict_get (snd p) id_key)) (enumerate r ds)"

definition appearances :: "string \<Rightarrow> doc list list \<Rightarrow> (nat \<times> doc) list" where
  "appearances id_key ls = concat (map (visited id_key 0) ls)"

definition hranks :: "string \<Rightarrow> val \<Rightarrow> (nat \<times> doc) list \<Rightarrow> nat list" where
  "hranks id_key v h = map fst (filter (\<lambda>p. dict_get (snd p) id_key = v) h)"

definition hdoc :: "string \<Rightarrow> val \<Rightarrow> (nat \<times> doc) list \<Rightarrow> doc" where
  "hdoc id_key v h = (case find (\<lambda>p. dict_get (snd p) id_key = v) h of None \<Rightarrow> [] | Some p \<Rightarrow> snd p)"

definition hkeys :: "string \<Rightarrow> (nat \<times> doc) list \<Rightarrow> val list" where
  "hkeys id_key h = first_occ (map (\<lambda>p. dict_get (snd p) id_key) h)"

definition rrf_abs :: "int \<Rightarrow> string \<Rightarrow> (nat \<times> doc) list \<Rightarrow> rrf_state" where
  "rrf_abs k id_key h =
     \<lparr>scores = map (\<lambda>v. (v, rrf_sum k (hranks id_key v h))) (hkeys id_key h),
      docs = map (\<lambda>v. (v, hdoc id_key v h)) (hkeys id_key h),
      top_ranks = map (\<lambda>v. (v, Min (set (hranks id_key v h)))) (hkeys id_key h)\<rparr>"

text \<open>A visit raises nothing: the id can be hashed and the divisor is not zero.\<close>

definition visit_ok :: "int \<Rightarrow> string \<Rightarrow> nat \<times> doc \<Rightarrow> bool" where
  "visit_ok k id_key p \<longleftrightarrow>
     (truthy (dict_get (snd p) id_key) \<longrightarrow>
        hashable (dict_get (snd p) id_key) \<and> k + int (fst p) + 1 \<noteq> 0)"

section \<open>Python strings and slices\<close>

text \<open>
  \<open>str.isspace\<close> on the code points below 256: the characters that \<open>str.strip\<close>
  removes and that \<open>\s\<close> matches.
\<close>

definition isspace :: "char \<Rightarrow> bool" where
  "isspace c \<longleftrightarrow>
     c \<in> set [CHR 0x09, CHR 0x0A, CHR 0x0B, CHR 0x0C, CHR 0x0D,
               CHR 0x1C, CHR 0x1D, CHR 0x1E, CHR 0x1F, CHR 0x20, CHR 0x85, CHR 0xA0]"

definition lstrip :: "string \<Rightarrow> string" where
  "lstrip s = dropWhile isspace s"

definition strip :: "string \<Rightarrow> string" where
  "strip s = rev (dropWhile isspace (rev (dropWhile isspace s)))"

definition startswith :: "string \<Rightarrow> string \<Rightarrow> bool" where
  "startswith s p \<longleftrightarrow> take (length p) s = p"

text \<open>\<open>xs[:n]\<close> for an int \<open>n\<close>: a negative \<open>n\<close> counts from the end.\<close>

definition py_take :: "int \<Rightarrow> 'a list \<Rightarrow> 'a list" where
  "py_take n xs = (if 0 \<le> n then take (nat n) xs else take (nat (int (length xs) + n)) xs)"

text \<open>\<open>xs[n:]\<close> for an int \<open>n\<close>.\<close>

definition py_drop :: "int \<Rightarrow> 'a list \<Rightarrow> 'a list" where
  "py_drop n xs = (if 0 \<le> n then drop (nat n) xs else drop (nat (int (length xs) + n)) xs)"

text \<open>
  \<open>str.upper\<close>.  The letters below 256 and their capitals; the sharp s becomes \<open>SS\<close>.
  The capitals of the micro sign and of y with diaeresis lie beyond 255 and are not
  represented: those two characters are left as they are.
\<close>

definition lower_letters :: string where
  "lower_letters = ''abcdefghijklmnopqrstuvwxyz'' @
     [CHR 0xE0, CHR 0xE1, CHR 0xE2, CHR 0xE3, CHR 0xE4, CHR 0xE5, CHR 0xE6, CHR 0xE7,
      CHR 0xE8, CHR 0xE9, CHR 0xEA, CHR 0xEB, CHR 0xEC, CHR 0xED, CHR 0xEE, CHR 0xEF,
      CHR 0xF0, CHR 0xF1, CHR 0xF2, CHR 0xF3, CHR 0xF4, CHR 0xF5, CHR 0xF6,
      CHR 0xF8, CHR 0xF9, CHR 0xFA, CHR 0xFB, CHR 0xFC, CHR 0xFD, CHR 0xFE]"

definition upper_letters :: string where
  "upper_letters = ''ABCDEFGHIJKLMNOPQRSTUVWXYZ'' @
     [CHR 0xC0, CHR 0xC1, CHR 0xC2, CHR 0xC3, CHR 0xC4, CHR 0xC5, CHR 0xC6, CHR 0xC7,
      CHR 0xC8, CHR 0xC9, CHR 0xCA, CHR 0xCB, CHR 0xCC, CHR 0xCD, CHR 0xCE, CHR 0xCF,
      CHR 0xD0, CHR 0xD1, CHR 0xD2, CHR 0xD3, CHR 0xD4, CHR 0xD5, CHR 0xD6,
      CHR 0xD8, CHR 0xD9, CHR 0xDA, CHR 0xDB, CHR 0xDC, CHR 0xDD, CHR 0xDE]"

definition upper_char :: "char \<Rightarrow> string" where
  "upper_char c =
     (if c = CHR 0xDF then ''SS''
      else (case map_of (zip lower_letters upper_letters) c of None \<Rightarrow> [c] | Some u \<Rightarrow> [u]))"

definition upper :: "string \<Rightarrow> string" where
  "upper s = concat (map upper_char s)"

text \<open>\<open>s.split("\n")\<close>: the pieces between line feeds, empty pieces included.\<close>

fun split_lines :: "string \<Rightarrow> string list" where
  "split_lines [] = [[]]"
| "split_lines (c # cs) =
     (if c = CHR 0x0A then [] # split_lines cs
      else (case split_lines cs of [] \<Rightarrow> [[c]] | l # ls \<Rightarrow> (c # l) # ls))"

text \<open>\<open>needle in haystack\<close> for strings.\<close>

fun contains :: "string \<Rightarrow> string \<Rightarrow> bool" where
  "contains [] needle = (needle = [])"
| "contains (c # cs) needle = (startswith (c # cs) needle \<or> contains cs needle)"

text \<open>\<open>sep.join(parts)\<close>.\<close>

fun join :: "string \<Rightarrow> string list \<Rightarrow> string" where
  "join sep [] = []"
| "join sep [p] = p"
| "join sep (p # q # ps) = p @ sep @ join sep (q # ps)"

section \<open>reranker.py\<close>

text \<open>
  The small-LLM backend is outside the repository.  One request to \<open>/api/generate\<close> is
  answered by a failure (no connection, a timeout, an error status, a reply that is not
  a JSON object, a \<open>response\<close> that is not a string) or by the text of the \<open>response\<close>
  field, the empty string when the reply has none.
\<close>

record llm_request =
  llm_model :: string
  llm_prompt :: string
  llm_temperature :: rat
  llm_num_predict :: nat

text \<open>
  A \<open>Reranker\<close> object: the model name it was built with, and the backend it talks to.
  \<open>repr_list\<close> is Python's \<open>str\<close> of a list of strings, used only when a list is
  formatted into a prompt.
\<close>

record reranker =
  rr_model :: string
  llm_backend :: "llm_request \<Rightarrow> error + string"
  repr_list :: "string list \<Rightarrow> string"

definition RERANK_PROMPT :: "string \<Rightarrow> string \<Rightarrow> string" where
  "RERANK_PROMPT query document =
     ''You are a relevance judge. Given a query and a document, determine if the document is relevant.\<newline>\<newline>Query: ''
     @ query @ ''\<newline>\<newline>Document:\<newline>'' @ document
     @ ''\<newline>\<newline>Is this document relevant to the query? Answer with only YES or NO.''"

definition QUERY_EXPANSION_PROMPT :: "string \<Rightarrow> string" where
  "QUERY_EXPANSION_PROMPT query =
     ''Generate 2 alternative search queries for: '' @ [CHR 0x22] @ query @ [CHR 0x22]
     @ ''\<newline>\<newline>Rules:\<newline>- Keep the same meaning/intent\<newline>- Use different words or phrasings  \<newline>- One should be more specific, one more general\<newline>- Keep each under 10 words\<newline>\<newline>Output exactly 2 lines, one query per line:''"

text \<open>\<open>_generate\<close>: every failure of the call is caught, logged, and becomes \<open>""\<close>.\<close>

definition generate :: "reranker \<Rightarrow> string \<Rightarrow> string" where
  "generate rr prompt =
     (case llm_backend rr \<lparr>llm_model = rr_model rr, llm_prompt = prompt,
                            llm_temperature = 0, llm_num_predict = 10\<rparr> of
        Inl e \<Rightarrow> ''''
      | Inr response \<Rightarrow> strip response)"

text \<open>
  \<open>document[:2000]\<close> and its formatting into the prompt.  \<open>None\<close> and numbers cannot be
  sliced.
\<close>

fun doc_text :: "reranker \<Rightarrow> val \<Rightarrow> error + string" where
  "doc_text rr (VStr s) = Inr (take 2000 s)"
| "doc_text rr (VList xs) = Inr (repr_list rr (take 2000 xs))"
| "doc_text rr VNone = Inl TypeError"
| "doc_text rr (VNum x) = Inl TypeError"

definition score_document :: "reranker \<Rightarrow> string \<Rightarrow> val \<Rightarrow> error + rat" where
  "score_document rr query document =
     (case doc_text rr document of
        Inl e \<Rightarrow> Inl e
      | Inr text \<Rightarrow>
          let response = generate rr (RERANK_PROMPT query text);
              response_upper = strip (upper response)
          in if startswith response_upper ''YES'' then Inr 1
             else if startswith response_upper ''NO'' then Inr 0
             else Inr (1 / 2))"

text \<open>The task run for one document; its exception, if any, is what \<open>gather\<close> collects.\<close>

definition score_with_semaphore ::
    "reranker \<Rightarrow> string \<Rightarrow> string \<Rightarrow> string \<Rightarrow> doc \<Rightarrow> error + (val \<times> rat)" where
  "score_with_semaphore rr query content_key id_key d =
     (let doc_id = dict_get_default d id_key (VStr '''');
          content = dict_get_default d content_key (VStr '''');
          content = (if \<not> truthy content
                     then dict_get_default d ''snippet'' (dict_get_default d ''excerpt'' (VStr ''''))
                     else content)
      in case score_document rr query content of
           Inl e \<Rightarrow> Inl e
         | Inr score \<Rightarrow> Inr (doc_id, score))"

text \<open>
  The loop that builds the score dictionary: an exception among the gathered results is
  logged and skipped; \<open>scores[doc_id] = score\<close> hashes the id.
\<close>

fun collect_scores :: "(error + (val \<times> rat)) list \<Rightarrow> (val \<times> rat) list \<Rightarrow> error + (val \<times> rat) list" where
  "collect_scores [] score_map = Inr score_map"
| "collect_scores (Inl e # results) score_map = collect_scores results score_map"
| "collect_scores (Inr (doc_id, score) # results) score_map =
     (if \<not> hashable doc_id then Inl TypeError
      else collect_scores results (AList.update doc_id score score_map))"

text \<open>
  Outcomes of \<open>rerank\<close>.  A semaphore of negative width cannot be built
  (\<open>ValueError\<close>); one of width 0 is never acquired, so with a document to score the
  call does not return, which is the outcome \<open>None\<close>.
\<close>

definition rerank ::
    "reranker \<Rightarrow> string \<Rightarrow> doc list \<Rightarrow> string \<Rightarrow> string \<Rightarrow> int \<Rightarrow> int
      \<Rightarrow> (error + (val \<times> rat) list) option" where
  "rerank rr query documents content_key id_key top_k concurrency =
     (let docs_to_rerank = py_take top_k documents in
      if concurrency < 0 then Some (Inl ValueError)
      else if concurrency = 0 \<and> docs_to_rerank \<noteq> [] then None
      else Some (collect_scores
                   (map (score_with_semaphore rr query content_key id_key) docs_to_rerank) []))"

text \<open>
  \<open>expand_query\<close>.  The bullet prefix of the source is a code point beyond 255, which no
  line of the modelled text starts with; the other seven prefixes are tried in order.
\<close>

definition expansion_prefixes :: "string list" where
  "expansion_prefixes = [''1.'', ''2.'', ''1:'', ''2:'', ''1)'', ''2)'', ''-'']"

fun remove_prefixes :: "string list \<Rightarrow> string \<Rightarrow> string" where
  "remove_prefixes [] line = line"
| "remove_prefixes (prefix # rest) line =
     remove_prefixes rest
       (if startswith line prefix then strip (drop (length prefix) line) else line)"

fun alternatives :: "string \<Rightarrow> string list \<Rightarrow> string list" where
  "alternatives query [] = []"
| "alternatives query (line # rest) =
     (let line' = remove_prefixes expansion_prefixes line in
      if line' \<noteq> [] \<and> line' \<noteq> query then line' # alternatives query rest
      else alternatives query rest)"

definition expand_query :: "reranker \<Rightarrow> string \<Rightarrow> string list" where
  "expand_query rr query =
     (case llm_backend rr \<lparr>llm_model = rr_model rr, llm_prompt = QUERY_EXPANSION_PROMPT query,
                            llm_temperature = 7 / 10, llm_num_predict = 50\<rparr> of
        Inl e \<Rightarrow> [query]
      | Inr response \<Rightarrow>
          let result = strip response;
              lines = filter (\<lambda>l. l \<noteq> []) (map strip (split_lines result))
          in query # alternatives query (take 2 lines))"

section \<open>searcher.py\<close>

text \<open>
  The rows of a vector table have the schema \<open>DocumentChunk\<close> of indexer.py.
\<close>

record DocumentChunk =
  dc_id :: string
  dc_vector :: "rat list"
  dc_file_path :: string
  dc_file_hash :: string
  dc_title :: string
  dc_category :: string
  dc_people :: "string list"
  dc_projects :: "string list"
  dc_date :: "string option"
  dc_vault :: string
  dc_chunk_index :: int
  dc_content :: string

record embed_request =
  embed_model :: string
  embed_input :: string

text \<open>
  What a \<open>Searcher\<close> object holds and talks to.  The embedding backend, the vector
  database and the full-text index are outside the source at hand, so their answers are
  parameters:
  \<^item> \<open>embed_backend n req\<close> is the outcome of the request \<open>req\<close> to \<open>/api/embed\<close> when
    \<open>n\<close> requests were made before it: a failure, or the first embedding of the reply;
  \<^item> \<open>table_search name vector filter limit\<close> is the outcome of opening the table and
    running the nearest-neighbour query: a failure, or rows with their \<open>_distance\<close>;
  \<^item> \<open>fts_index\<close> is \<open>None\<close> when the searcher has no full-text index, and else the
    \<open>search\<close> method of the index, called with query, vault, limit and person.
\<close>

record searcher =
  embedding_model :: string
  embed_backend :: "nat \<Rightarrow> embed_request \<Rightarrow> error + rat list"
  table_search :: "string \<Rightarrow> rat list \<Rightarrow> string option \<Rightarrow> int \<Rightarrow> error + (DocumentChunk \<times> rat) list"
  fts_index :: "(string \<Rightarrow> string \<Rightarrow> int \<Rightarrow> string option \<Rightarrow> error + doc list) option"
  the_reranker :: reranker

text \<open>
  The world outside the two objects: the texts sent to the embedding backend so far, the
  rows of the vector tables by table name, and the rows of the full-text index by
  \<open>file_path\<close>.  The searcher reads the stores through \<open>table_search\<close> and
  \<open>fts_index\<close> and only ever adds to \<open>embed_calls\<close>.
\<close>

record world =
  embed_calls :: "string list"
  tables :: "(string \<times> DocumentChunk list) list"
  fts_rows :: "(string \<times> doc) list"

text \<open>\<open>Searcher.get_embedding\<close>: one request per call; a failure is raised.\<close>

definition searcher_get_embedding :: "searcher \<Rightarrow> world \<Rightarrow> string \<Rightarrow> (error + rat list) \<times> world" where
  "searcher_get_embedding s w text =
     (embed_backend s (length (embed_calls w))
        \<lparr>embed_model = embedding_model s, embed_input = text\<rparr>,
      w\<lparr>embed_calls := embed_calls w @ [text]\<rparr>)"

text \<open>An optional string argument is used when it is neither \<open>None\<close> nor empty.\<close>

fun given :: "string option \<Rightarrow> bool" where
  "given None = False"
| "given (Some s) = (s \<noteq> [])"

definition search_filters :: "string option \<Rightarrow> string option \<Rightarrow> string list" where
  "search_filters category person =
     (if given category then [''category = '' @ [CHR 0x22] @ the category @ [CHR 0x22]] else [])
     @ (if given person
        then [''array_contains(people, '' @ [CHR 0x22] @ the person @ [CHR 0x22] @ '')''] else [])"

definition where_clause :: "string option \<Rightarrow> string option \<Rightarrow> string option" where
  "where_clause category person =
     (if search_filters category person = [] then None
      else Some (join '' AND '' (search_filters category person)))"

text \<open>The record built from one row; the division fails for a distance of \<open>-1\<close>.\<close>

definition vector_result :: "string \<Rightarrow> DocumentChunk \<times> rat \<Rightarrow> error + doc" where
  "vector_result table_name r =
     (let content = dc_content (fst r);
          excerpt = (if length content > 300 then take 300 content @ ''...'' else content);
          distance = snd r
      in if 1 + distance = 0 then Inl ZeroDivisionError
         else Inr [(''score'', VNum (1 / (1 + distance))),
                   (''file_path'', VStr (dc_file_path (fst r))),
                   (''title'', VStr (dc_title (fst r))),
                   (''content'', VStr content),
                   (''excerpt'', VStr excerpt),
                   (''date'', (case dc_date (fst r) of None \<Rightarrow> VNone | Some d \<Rightarrow> VStr d)),
                   (''people'', VList (dc_people (fst r))),
                   (''category'', VStr (dc_category (fst r))),
                   (''vault'', VStr table_name),
                   (''source'', VStr ''vector'')])"

text \<open>
  The loop over the rows of one table runs inside \<open>try\<close>: an exception ends it, and
  the records appended before stay in \<open>results\<close>.
\<close>

fun append_rows :: "string \<Rightarrow> (DocumentChunk \<times> rat) list \<Rightarrow> doc list \<Rightarrow> doc list" where
  "append_rows table_name [] results = results"
| "append_rows table_name (r # rs) results =
     (case vector_result table_name r of
        Inl e \<Rightarrow> results
      | Inr d \<Rightarrow> append_rows table_name rs (results @ [d]))"

definition search_one_table ::
    "searcher \<Rightarrow> rat list \<Rightarrow> string option \<Rightarrow> string option \<Rightarrow> int \<Rightarrow> string \<Rightarrow> doc list \<Rightarrow> doc list" where
  "search_one_table s query_embedding category person limit table_name results =
     (case table_search s table_name query_embedding (where_clause category person) limit of
        Inl e \<Rightarrow> results
      | Inr search_results \<Rightarrow> append_rows table_name search_results results)"

definition tables_to_search :: "string \<Rightarrow> string list" where
  "tables_to_search vault =
     (if vault \<in> set [''all'', ''work''] then [''work''] else [])
     @ (if vault \<in> set [''all'', ''personal''] then [''personal''] else [])"

definition vector_search ::
    "searcher \<Rightarrow> world \<Rightarrow> string \<Rightarrow> string \<Rightarrow> string option \<Rightarrow> string option \<Rightarrow> int
      \<Rightarrow> (error + doc list) \<times> world" where
  "vector_search s w query vault category person limit =
     (case searcher_get_embedding s w query of
        (Inl e, w') \<Rightarrow> (Inl e, w')
      | (Inr query_embedding, w') \<Rightarrow>
          let results = fold (search_one_table s query_embedding category person limit)
                             (tables_to_search vault) []
          in (Inr (py_take limit (sort_key (\<lambda>x. - score_value x) results)), w'))"

definition bm25_search ::
    "searcher \<Rightarrow> string \<Rightarrow> string \<Rightarrow> string option \<Rightarrow> int \<Rightarrow> error + doc list" where
  "bm25_search s query vault person limit =
     (case fts_index s of
        None \<Rightarrow> Inr []
      | Some search \<Rightarrow> search query vault limit person)"

text \<open>
  \<open>hybrid_search\<close>.  \<open>asyncio.gather\<close> starts both searches and raises the exception of
  the first that fails; the BM25 search has no suspension point and is done first.
\<close>

definition hybrid_search ::
    "searcher \<Rightarrow> world \<Rightarrow> string \<Rightarrow> string \<Rightarrow> string option \<Rightarrow> string option \<Rightarrow> int
      \<Rightarrow> (error + doc list) \<times> world" where
  "hybrid_search s w query vault category person limit =
     (let bm25_task = bm25_search s query vault person 30;
          (vector_task, w') = vector_search s w query vault category person 30
      in case bm25_task of
           Inl e \<Rightarrow> (Inl e, w')
         | Inr bm25_results \<Rightarrow>
             (case vector_task of
                Inl e \<Rightarrow> (Inl e, w')
              | Inr vector_results \<Rightarrow>
                  (case reciprocal_rank_fusion [bm25_results, vector_results] 60
                          ''file_path'' ''score'' True of
                     Inl e \<Rightarrow> (Inl e, w')
                   | Inr fused \<Rightarrow>
                       (case normalize_scores fused ''score'' of
                          Inl e \<Rightarrow> (Inl e, w')
                        | Inr fused' \<Rightarrow> (Inr (py_take limit fused'), w')))))"

text \<open>Step 2 of \<open>query_search\<close>: one hybrid search per query, in order.\<close>

fun hybrid_all ::
    "searcher \<Rightarrow> world \<Rightarrow> string list \<Rightarrow> string \<Rightarrow> string option \<Rightarrow> string option
      \<Rightarrow> (error + doc list list) \<times> world" where
  "hybrid_all s w [] vault category person = (Inr [], w)"
| "hybrid_all s w (q # qs) vault category person =
     (case hybrid_search s w q vault category person 30 of
        (Inl e, w') \<Rightarrow> (Inl e, w')
      | (Inr results, w') \<Rightarrow>
          (case hybrid_all s w' qs vault category person of
             (Inl e, w'') \<Rightarrow> (Inl e, w'')
           | (Inr rest, w'') \<Rightarrow> (Inr (results # rest), w'')))"

text \<open>\<open>if len(all_results) > 1: all_results.insert(0, all_results[0])\<close>.\<close>

definition weight_original :: "doc list list \<Rightarrow> doc list list" where
  "weight_original all_results =
     (if length all_results > 1 then (all_results ! 0) # all_results else all_results)"

text \<open>Steps 1 and 2 and the weighting: the lists handed to the fusion.\<close>

definition fusion_input ::
    "searcher \<Rightarrow> world \<Rightarrow> string \<Rightarrow> string \<Rightarrow> string option \<Rightarrow> string option \<Rightarrow> bool
      \<Rightarrow> (error + doc list list) \<times> world" where
  "fusion_input s w query vault category person use_query_expansion =
     (let queries = (if use_query_expansion then expand_query (the_reranker s) query else [query])
      in case hybrid_all s w queries vault category person of
           (Inl e, w') \<Rightarrow> (Inl e, w')
         | (Inr all_results, w') \<Rightarrow> (Inr (weight_original all_results), w'))"

text \<open>
  Step 4, the optional reranking.  \<open>None\<close> is the outcome of a call that does not
  return; with the semaphore width 5 passed here there is none.
\<close>

definition rerank_step :: "searcher \<Rightarrow> string \<Rightarrow> bool \<Rightarrow> doc list \<Rightarrow> (error + doc list) option" where
  "rerank_step s query use_reranking fused =
     (if use_reranking \<and> length fused > 0 then
        (case rerank (the_reranker s) query (py_take 30 fused) ''content'' ''file_path'' 30 5 of
           None \<Rightarrow> None
         | Some (Inl e) \<Rightarrow> Some (Inl e)
         | Some (Inr rerank_scores) \<Rightarrow> Some (position_aware_blend fused rerank_scores ''file_path''))
      else Some (Inr fused))"

definition query_search ::
    "searcher \<Rightarrow> world \<Rightarrow> string \<Rightarrow> string \<Rightarrow> string option \<Rightarrow> string option \<Rightarrow> int
      \<Rightarrow> bool \<Rightarrow> bool \<Rightarrow> ((error + doc list) \<times> world) option" where
  "query_search s w query vault category person limit use_reranking use_query_expansion =
     (case fusion_input s w query vault category person use_query_expansion of
        (Inl e, w') \<Rightarrow> Some (Inl e, w')
      | (Inr all_results, w') \<Rightarrow>
          (case reciprocal_rank_fusion all_results 60 ''file_path'' ''score'' True of
             Inl e \<Rightarrow> Some (Inl e, w')
           | Inr fused \<Rightarrow>
               (case rerank_step s query use_reranking fused of
                  None \<Rightarrow> None
                | Some (Inl e) \<Rightarrow> Some (Inl e, w')
                | Some (Inr fused') \<Rightarrow> Some (Inr (py_take limit fused'), w'))))"

subsection \<open>What the reranker does when its backend is down\<close>

text \<open>
  The content that \<open>rerank\<close> hands to \<open>score_document\<close> for a record: the value under
  the content key, or, when that is falsy, the snippet, or the excerpt.  A record is
  scorable when that content can be sliced (a string or a list); for the others
  \<open>score_document\<close> raises.  \<open>half_scores\<close> is the score map with 0.5 for every
  scorable record.
\<close>

definition content_of :: "string \<Rightarrow> doc \<Rightarrow> val" where
  "content_of content_key d =
     (let content = dict_get_default d content_key (VStr '''')
      in if \<not> truthy content
         then dict_get_default d ''snippet'' (dict_get_default d ''excerpt'' (VStr ''''))
         else content)"

definition scorable :: "string \<Rightarrow> doc \<Rightarrow> bool" where
  "scorable content_key d =
     (case content_of content_key d of VStr s \<Rightarrow> True | VList xs \<Rightarrow> True | _ \<Rightarrow> False)"

definition half_scores :: "string \<Rightarrow> string \<Rightarrow> doc list \<Rightarrow> (val \<times> rat) list" where
  "half_scores content_key id_key ds =
     map (\<lambda>d. (dict_get d id_key, 1 / 2)) (filter (scorable content_key) ds)"

section \<open>indexer.py\<close>

text \<open>
  What the indexer calls that is not in the source at hand is a parameter:
  \<^item> \<open>md5_hex text\<close> is \<open>hashlib.md5(text.encode()).hexdigest()\<close>;
  \<^item> \<open>read_text path\<close> is \<open>Path.read_text\<close>: the content of the file, or a failure;
  \<^item> \<open>frontmatter_loads\<close> is \<open>frontmatter.loads\<close>: the metadata dictionary and the body;
  \<^item> \<open>relative_to_parts path base\<close> is \<open>path.relative_to(base).parts\<close>, a \<open>ValueError\<close>
    when \<open>path\<close> is not below \<open>base\<close>; \<open>path_name\<close> and \<open>path_stem\<close> are \<open>Path.name\<close>
    and \<open>Path.stem\<close>; \<open>py_str\<close> is \<open>str\<close>;
  \<^item> \<open>new_DocumentChunk id vector chunk\<close> is the construction of a \<open>DocumentChunk\<close>
    from the fields of the chunk dictionary, which validates them against the schema;
  \<^item> \<open>embed_service\<close> is the embedding backend, as for the searcher;
  \<^item> \<open>store_fails\<close> tells which store operations raise;
  \<^item> \<open>cancel_arrives i\<close> tells whether \<open>request_cancel\<close> is run by another task
    while the backend call for the chunk at position \<open>i\<close> of the file is awaited (a
    cache hit does not suspend, so nothing arrives during it).
\<close>

datatype store_op = TableDelete | TableAdd | FtsUpsert

record platform =
  md5_hex :: "string \<Rightarrow> string"
  read_text :: "string \<Rightarrow> error + string"
  frontmatter_loads :: "string \<Rightarrow> error + (doc \<times> string)"
  relative_to_parts :: "string \<Rightarrow> string \<Rightarrow> error + string list"
  path_name :: "string \<Rightarrow> string"
  path_stem :: "string \<Rightarrow> string"
  py_str :: "val \<Rightarrow> string"
  new_DocumentChunk :: "string \<Rightarrow> rat list \<Rightarrow> doc \<Rightarrow> error + DocumentChunk"
  embed_service :: "nat \<Rightarrow> embed_request \<Rightarrow> error + rat list"
  store_fails :: "store_op \<Rightarrow> bool"
  cancel_arrives :: "nat \<Rightarrow> bool"

text \<open>An \<open>Indexer\<close> object: the settings it reads and its two mutable attributes.\<close>

record indexer =
  chunk_size :: int
  chunk_overlap :: int
  vault_work_path :: string
  vault_personal_path :: string
  excluded_folders_list :: "string list"
  idx_embedding_model :: string
  has_fts_index :: bool
  embedding_cache :: "(string \<times> rat list) list"
  cancel_requested :: bool

definition request_cancel :: "indexer \<Rightarrow> indexer" where
  "request_cancel ix = ix\<lparr>cancel_requested := True\<rparr>"

subsection \<open>\<open>get_embedding\<close>\<close>

definition indexer_get_embedding ::
    "platform \<Rightarrow> indexer \<Rightarrow> world \<Rightarrow> string \<Rightarrow> (error + rat list) \<times> indexer \<times> world" where
  "indexer_get_embedding pf ix w text =
     (let cache_key = md5_hex pf text in
      case map_of (embedding_cache ix) cache_key of
        Some cached \<Rightarrow> (Inr cached, ix, w)
      | None \<Rightarrow>
          let w' = w\<lparr>embed_calls := embed_calls w @ [text]\<rparr> in
          (case embed_service pf (length (embed_calls w))
                  \<lparr>embed_model = idx_embedding_model ix, embed_input = text\<rparr> of
             Inl e \<Rightarrow> (Inl e, ix, w')
           | Inr embedding \<Rightarrow>
               (Inr embedding,
                ix\<lparr>embedding_cache := AList.update cache_key embedding (embedding_cache ix)\<rparr>,
                w')))"

subsection \<open>\<open>_chunk_document_sync\<close>\<close>

text \<open>
  \<open>re.split(r'\n\n+|(?=^###?\s)', content, flags=re.MULTILINE)\<close>.  The scan keeps
  whether it stands at the beginning of a line, whether the match before was empty and
  ended here (the next match must then not be empty), and the piece read so far.
\<close>

fun is_header :: "string \<Rightarrow> bool" where
  "is_header (a # b # c # d # rest) =
     (a = CHR ''#'' \<and> b = CHR ''#'' \<and> (isspace c \<or> (c = CHR ''#'' \<and> isspace d)))"
| "is_header [a, b, c] = (a = CHR ''#'' \<and> b = CHR ''#'' \<and> isspace c)"
| "is_header s = False"

function split_sections :: "bool \<Rightarrow> bool \<Rightarrow> string \<Rightarrow> string \<Rightarrow> string list" where
  "split_sections bol must_advance piece [] = [piece]"
| "split_sections bol must_advance piece (c # cs) =
     (if c = CHR 0x0A \<and> take 1 cs = [CHR 0x0A]
      then piece # split_sections True False [] (dropWhile (\<lambda>x. x = CHR 0x0A) cs)
      else if \<not> must_advance \<and> bol \<and> is_header (c # cs)
      then piece # split_sections bol True [] (c # cs)
      else split_sections (c = CHR 0x0A) False (piece @ [c]) cs)"
  by pat_completeness auto
termination
proof (relation "measure (\<lambda>(bol, must_advance, piece, s). 2 * length s + (if must_advance then 0 else 1))")
  fix must_advance :: bool and c :: char and cs :: string
  have "length (dropWhile (\<lambda>x. x = CHR 0x0A) cs) \<le> length cs"
    by (rule length_dropWhile_le)
  then show "((True, False, [], dropWhile (\<lambda>x. x = CHR 0x0A) cs), (bol, must_advance, piece, c # cs))
        \<in> measure (\<lambda>(bol, must_advance, piece, s). 2 * length s + (if must_advance then 0 else 1))"
    for bol piece
    by simp
qed simp_all

definition re_split_sections :: "string \<Rightarrow> string list" where
  "re_split_sections content = split_sections True False [] content"

text \<open>The chunk dictionary \<open>{"chunk_index": ..., "content": ..., **metadata}\<close>.\<close>

definition make_chunk :: "nat \<Rightarrow> string \<Rightarrow> doc \<Rightarrow> doc" where
  "make_chunk chunk_index current_chunk metadata =
     fold (\<lambda>kv d. AList.update (fst kv) (snd kv) d) metadata
          [(''chunk_index'', VNum (of_nat chunk_index)), (''content'', VStr (strip current_chunk))]"

text \<open>The loop over the sections; its state is \<open>chunks\<close>, \<open>current_chunk\<close>, \<open>chunk_index\<close>.\<close>

fun chunk_loop :: "indexer \<Rightarrow> doc \<Rightarrow> string list \<Rightarrow> doc list \<Rightarrow> string \<Rightarrow> nat \<Rightarrow> doc list" where
  "chunk_loop ix metadata [] chunks current_chunk chunk_index =
     (if strip current_chunk \<noteq> []
      then chunks @ [make_chunk chunk_index current_chunk metadata]
      else chunks)"
| "chunk_loop ix metadata (section # rest) chunks current_chunk chunk_index =
     (let section = strip section in
      if section = [] then chunk_loop ix metadata rest chunks current_chunk chunk_index
      else if int (length current_chunk) + int (length section) > chunk_size ix * 4 then
        (if current_chunk \<noteq> [] then
           let overlap_start = max 0 (int (length current_chunk) - chunk_overlap ix * 4)
           in chunk_loop ix metadata rest
                (chunks @ [make_chunk chunk_index current_chunk metadata])
                (drop (nat overlap_start) current_chunk @ ''\<newline>\<newline>'' @ section)
                (chunk_index + 1)
         else chunk_loop ix metadata rest chunks section chunk_index)
      else chunk_loop ix metadata rest chunks
             (if current_chunk \<noteq> [] then current_chunk @ ''\<newline>\<newline>'' @ section else section)
             chunk_index)"

definition chunk_document :: "indexer \<Rightarrow> string \<Rightarrow> doc \<Rightarrow> doc list" where
  "chunk_document ix content metadata =
     chunk_loop ix metadata (re_split_sections content) [] [] 0"

subsection \<open>\<open>_extract_metadata_sync\<close>\<close>

text \<open>\<open>re.search(r'(\d{4}-\d{2}-\d{2})', name)\<close>: the first match, if any.\<close>

definition is_digit :: "char \<Rightarrow> bool" where
  "is_digit c \<longleftrightarrow> c \<in> set ''0123456789''"

definition date_at :: "string \<Rightarrow> bool" where
  "date_at s \<longleftrightarrow>
     length s \<ge> 10 \<and> list_all is_digit (take 4 s) \<and> s ! 4 = CHR ''-''
     \<and> list_all is_digit (take 2 (drop 5 s)) \<and> s ! 7 = CHR ''-''
     \<and> list_all is_digit (take 2 (drop 8 s))"

fun find_date :: "string \<Rightarrow> string option" where
  "find_date [] = None"
| "find_date (c # cs) = (if date_at (c # cs) then Some (take 10 (c # cs)) else find_date cs)"

text \<open>\<open>s.split(",")\<close>.\<close>

fun split_commas :: "string \<Rightarrow> string list" where
  "split_commas [] = [[]]"
| "split_commas (c # cs) =
     (if c = CHR '','' then [] # split_commas cs
      else (case split_commas cs of [] \<Rightarrow> [[c]] | p # ps \<Rightarrow> (c # p) # ps))"

text \<open>A \<open>people\<close> or \<open>projects\<close> value: a string is split at commas and trimmed.\<close>

fun list_field :: "val \<Rightarrow> val" where
  "list_field (VStr s) = VList (map strip (split_commas s))"
| "list_field v = v"

definition extract_metadata :: "platform \<Rightarrow> indexer \<Rightarrow> string \<Rightarrow> string \<Rightarrow> error + doc" where
  "extract_metadata pf ix file_path content =
     (let (fm, body) = (case frontmatter_loads pf content of
                          Inl e \<Rightarrow> ([], content)
                        | Inr post \<Rightarrow> post);
          vault = (if contains file_path (vault_work_path ix) then ''work''
                   else if contains file_path (vault_personal_path ix) then ''personal''
                   else ''unknown'')
      in case relative_to_parts pf file_path
                (if vault = ''work'' then vault_work_path ix else vault_personal_path ix) of
           Inl e \<Rightarrow> Inl e
         | Inr parts \<Rightarrow>
             let category = (case parts of [] \<Rightarrow> ''other'' | p # ps \<Rightarrow> p);
                 title = dict_get_default fm ''title'' (VStr (path_stem pf file_path));
                 date = dict_get fm ''date'';
                 date = (if truthy date then VStr (py_str pf date)
                         else (case find_date (path_name pf file_path) of
                                 None \<Rightarrow> date
                               | Some d \<Rightarrow> VStr d));
                 people = list_field (dict_get_default fm ''people'' (VList []));
                 projects = list_field (dict_get_default fm ''projects'' (VList []))
             in Inr [(''file_path'', VStr file_path),
                     (''file_hash'', VStr (md5_hex pf content)),
                     (''title'', title),
                     (''category'', VStr category),
                     (''people'', people),
                     (''projects'', projects),
                     (''date'', date),
                     (''vault'', VStr vault),
                     (''body'', VStr body)])"

definition is_excluded :: "indexer \<Rightarrow> string \<Rightarrow> bool" where
  "is_excluded ix file_path \<longleftrightarrow> (\<exists>excluded \<in> set (excluded_folders_list ix). contains file_path excluded)"

text \<open>\<open>_read_file_sync\<close>: a failure to read is logged and becomes \<open>None\<close>.\<close>

definition read_file :: "platform \<Rightarrow> string \<Rightarrow> string option" where
  "read_file pf file_path = (case read_text pf file_path of Inl e \<Rightarrow> None | Inr content \<Rightarrow> Some content)"

subsection \<open>\<open>index_file\<close>\<close>

text \<open>The decimal digits of an int that is not negative, for the chunk id.\<close>

function decimal :: "nat \<Rightarrow> string" where
  "decimal n = (if n < 10 then [''0123456789'' ! n] else decimal (n div 10) @ [''0123456789'' ! (n mod 10)])"
  by pat_completeness auto
termination
  by (relation "measure id") auto

text \<open>A text field of a dictionary built by the indexer itself.\<close>

definition text_of :: "val \<Rightarrow> string" where
  "text_of v = (case v of VStr s \<Rightarrow> s | _ \<Rightarrow> [])"

text \<open>
  \<open>chunk["content"][:8000]\<close>, the text that is embedded, and the id
  \<open>f"{chunk['file_hash']}_{chunk['chunk_index']}"\<close> of the record.
\<close>

definition chunk_text :: "doc \<Rightarrow> string" where
  "chunk_text chunk = take 8000 (text_of (dict_get chunk ''content''))"

definition chunk_id_of :: "doc \<Rightarrow> string" where
  "chunk_id_of chunk =
     text_of (dict_get chunk ''file_hash'') @ ''_''
     @ decimal (nat \<lfloor>num_field ''chunk_index'' chunk\<rfloor>)"

text \<open>
  The loop that embeds the chunks.  It ends with \<open>Inl n\<close> when the cancellation flag
  is seen (the function then returns \<open>n = len(records)\<close> at once) and with \<open>Inr records\<close>
  when all chunks were tried.  An exception of the embedding call or of the record
  construction is logged, and the chunk is left out.
\<close>

fun embed_chunks ::
    "platform \<Rightarrow> indexer \<Rightarrow> world \<Rightarrow> nat \<Rightarrow> doc list \<Rightarrow> DocumentChunk list
      \<Rightarrow> (nat + DocumentChunk list) \<times> indexer \<times> world" where
  "embed_chunks pf ix w i [] records = (Inr records, ix, w)"
| "embed_chunks pf ix w i (chunk # rest) records =
     (if cancel_requested ix then (Inl (length records), ix, w)
      else
        (case indexer_get_embedding pf ix w (chunk_text chunk) of
           (r, ix', w') \<Rightarrow>
             let suspended = (embed_calls w' \<noteq> embed_calls w);
                 ix'' = ix'\<lparr>cancel_requested :=
                            cancel_requested ix' \<or> (suspended \<and> cancel_arrives pf i)\<rparr>
             in (case r of
                   Inl e \<Rightarrow> embed_chunks pf ix'' w' (Suc i) rest records
                 | Inr embedding \<Rightarrow>
                     (case new_DocumentChunk pf (chunk_id_of chunk) embedding chunk of
                        Inl e \<Rightarrow> embed_chunks pf ix'' w' (Suc i) rest records
                      | Inr record \<Rightarrow> embed_chunks pf ix'' w' (Suc i) rest (records @ [record])))))"

text \<open>\<open>table.delete('file_hash = "..."')\<close>: the rows with that hash go.\<close>

definition delete_by_hash :: "string \<Rightarrow> DocumentChunk list \<Rightarrow> DocumentChunk list" where
  "delete_by_hash h rows = filter (\<lambda>r. dc_file_hash r \<noteq> h) rows"

text \<open>
  Modelled from the spec: \<open>FTSIndex.upsert_document\<close> of fts_index.py, which is not in
  the source at hand.  The specification calls it an atomic replace of the single row
  for that path.
\<close>

definition upsert_document :: "string \<Rightarrow> doc \<Rightarrow> (string \<times> doc) list \<Rightarrow> (string \<times> doc) list" where
  "upsert_document file_path row rows = AList.update file_path row rows"

text \<open>The writes of \<open>index_file\<close>, made when \<open>records\<close> is not empty.\<close>

definition write_records ::
    "platform \<Rightarrow> indexer \<Rightarrow> world \<Rightarrow> string \<Rightarrow> string \<Rightarrow> doc \<Rightarrow> string \<Rightarrow> DocumentChunk list
      \<Rightarrow> DocumentChunk list \<Rightarrow> (error + int) \<times> world" where
  "write_records pf ix w file_path table_name metadata body table records =
     (let table1 = (if store_fails pf TableDelete then table
                    else delete_by_hash (text_of (dict_get metadata ''file_hash'')) table)
      in if store_fails pf TableAdd
         then (Inl StoreError, w\<lparr>tables := AList.update table_name table1 (tables w)\<rparr>)
         else
           let w1 = w\<lparr>tables := AList.update table_name (table1 @ records) (tables w)\<rparr>;
               row = [(''title'', dict_get_default metadata ''title'' (VStr '''')),
                      (''content'', VStr body),
                      (''vault'', VStr table_name),
                      (''category'', dict_get_default metadata ''category'' (VStr '''')),
                      (''people'', dict_get_default metadata ''people'' (VList [])),
                      (''date'', dict_get metadata ''date'')];
               w2 = (if has_fts_index ix \<and> \<not> store_fails pf FtsUpsert
                     then w1\<lparr>fts_rows := upsert_document file_path row (fts_rows w1)\<rparr>
                     else w1)
           in (Inr (int (length records)), w2))"

definition index_file ::
    "platform \<Rightarrow> indexer \<Rightarrow> world \<Rightarrow> string \<Rightarrow> string \<Rightarrow> (error + int) \<times> indexer \<times> world" where
  "index_file pf ix w file_path table_name =
     (if is_excluded ix file_path then (Inr 0, ix, w)
      else
        (case read_file pf file_path of
           None \<Rightarrow> (Inr 0, ix, w)
         | Some content \<Rightarrow>
             if length (strip content) < 50 then (Inr 0, ix, w)
             else
               (case extract_metadata pf ix file_path content of
                  Inl e \<Rightarrow> (Inl e, ix, w)
                | Inr metadata_with_body \<Rightarrow>
                    let body = text_of (dict_get metadata_with_body ''body'');
                        metadata = AList.delete ''body'' metadata_with_body;
                        chunks = chunk_document ix body metadata
                    in if chunks = [] then (Inr 0, ix, w)
                       else
                         (case map_of (tables w) table_name of
                            None \<Rightarrow> (Inl StoreError, ix, w)
                          | Some table \<Rightarrow>
                              (case embed_chunks pf ix w 0 chunks [] of
                                 (Inl n, ix', w') \<Rightarrow> (Inr (int n), ix', w')
                               | (Inr records, ix', w') \<Rightarrow>
                                   if records = [] then (Inr 0, ix', w')
                                   else
                                     (case write_records pf ix' w' file_path table_name
                                             metadata body table records of
                                        (r, w'') \<Rightarrow> (r, ix', w'')))))))"

section \<open>Example objects\<close>

text \<open>
  Concrete searchers for the evaluations below.  \<open>ex_searcher\<close> has a full-text index
  with two hits for the query \<open>migration\<close> and one for any other query, an empty
  vector table, an embedding backend that answers, and a small LLM that answers the
  expansion request only.  \<open>down_searcher\<close> is the same with the embedding backend
  unreachable.  \<open>dead_rerank_searcher\<close> has four full-text hits and a small LLM that
  fails every request.
\<close>

definition ex_reranker :: reranker where
  "ex_reranker =
     \<lparr>rr_model = ''qwen2.5:0.5b'',
      llm_backend = (\<lambda>req. if llm_temperature req = 7 / 10
                           then Inr ''1. database move\<newline>''
                           else Inl (HTTPError ''404 Not Found'')),
      repr_list = (\<lambda>xs. [])\<rparr>"

definition ex_searcher :: searcher where
  "ex_searcher =
     \<lparr>embedding_model = ''nomic-embed-text'',
      embed_backend = (\<lambda>n req. Inr [0]),
      table_search = (\<lambda>name v flt lim. Inr []),
      fts_index = Some (\<lambda>q vault lim person.
         if q = ''migration''
         then Inr [[(''file_path'', VStr ''a.md''), (''snippet'', VStr ''plan'')],
                   [(''file_path'', VStr ''b.md''), (''snippet'', VStr ''notes'')]]
         else Inr [[(''file_path'', VStr ''b.md''), (''snippet'', VStr ''notes'')]]),
      the_reranker = ex_reranker\<rparr>"

definition ex_world :: world where
  "ex_world = \<lparr>embed_calls = [], tables = [], fts_rows = []\<rparr>"

definition down_searcher :: searcher where
  "down_searcher = ex_searcher\<lparr>embed_backend := (\<lambda>n req. Inl (HTTPError ''connection refused''))\<rparr>"

definition dead_reranker :: reranker where
  "dead_reranker =
     \<lparr>rr_model = ''qwen2.5:0.5b'',
      llm_backend = (\<lambda>req. Inl (HTTPError ''404 Not Found'')),
      repr_list = (\<lambda>xs. [])\<rparr>"

definition four_hits :: "doc list" where
  "four_hits =
     [[(''file_path'', VStr ''a.md''), (''snippet'', VStr ''alpha'')],
      [(''file_path'', VStr ''b.md''), (''snippet'', VStr ''beta'')],
      [(''file_path'', VStr ''c.md''), (''snippet'', VStr ''gamma'')],
      [(''file_path'', VStr ''d.md''), (''snippet'', VStr ''delta'')]]"

definition dead_rerank_searcher :: searcher where
  "dead_rerank_searcher =
     \<lparr>embedding_model = ''nomic-embed-text'',
      embed_backend = (\<lambda>n req. Inr [0]),
      table_search = (\<lambda>name v flt lim. Inr []),
      fts_index = Some (\<lambda>q vault lim person. Inr four_hits),
      the_reranker = dead_reranker\<rparr>"

text \<open>
  A work vault at \<open>/vault/work\<close> with the single file \<open>b.md\<close>, whose text is the
  argument of \<open>ex_platform\<close>.  The platform has the real MD5 digests of the example
  texts, a front-matter parser for texts without front matter (no metadata, the
  stripped text as body), a schema check that accepts a record when its fields have the
  types of the schema and its vector 768 entries, an embedding backend that answers
  with the zero vector, and stores that do not fail.
\<close>

definition march_text :: string where
  "march_text = ''# Plan\<newline>\<newline>Migrate the billing database to the new cluster in March.''"

definition april_text :: string where
  "april_text = ''# Plan\<newline>\<newline>Migrate the billing database to the new cluster in April.''"

definition text49 :: string where
  "text49 = ''Migrate the billing database to the cluster today''"

definition text50 :: string where
  "text50 = ''Migrate the billing database to the cluster today.''"

definition text51 :: string where
  "text51 = ''Migrate the billing database to the cluster tonight''"

definition ex_md5 :: "string \<Rightarrow> string" where
  "ex_md5 text =
     (case map_of [(march_text, ''894225746e38618f91f63ec5629465d9''),
                   (april_text, ''7713bebb1c180ae5098d954c822cc975''),
                   (text49, ''b8015646594a9474e3d43a9c64752ac7''),
                   (text50, ''78e2c5b608104eca7c4671a97ae796d2''),
                   (text51, ''f9f97f3746e3776c27ca61f67b685ccd'')] text of
        None \<Rightarrow> [] | Some h \<Rightarrow> h)"

definition typed_DocumentChunk :: "string \<Rightarrow> rat list \<Rightarrow> doc \<Rightarrow> error + DocumentChunk" where
  "typed_DocumentChunk chunk_id embedding chunk =
     (case (dict_get chunk ''title'', dict_get chunk ''people'', dict_get chunk ''projects'') of
        (VStr title, VList people, VList projects) \<Rightarrow>
          if length embedding \<noteq> 768 then Inl ValueError
          else
            (case dict_get chunk ''date'' of
               VNum x \<Rightarrow> Inl ValueError
             | VList xs \<Rightarrow> Inl ValueError
             | date \<Rightarrow>
                 Inr \<lparr>dc_id = chunk_id, dc_vector = embedding,
                      dc_file_path = text_of (dict_get chunk ''file_path''),
                      dc_file_hash = text_of (dict_get chunk ''file_hash''),
                      dc_title = title,
                      dc_category = text_of (dict_get chunk ''category''),
                      dc_people = people, dc_projects = projects,
                      dc_date = (case date of VStr d \<Rightarrow> Some d | _ \<Rightarrow> None),
                      dc_vault = text_of (dict_get chunk ''vault''),
                      dc_chunk_index = \<lfloor>num_field ''chunk_index'' chunk\<rfloor>,
                      dc_content = text_of (dict_get chunk ''content'')\<rparr>)
      | _ \<Rightarrow> Inl ValueError)"

definition ex_platform :: "string \<Rightarrow> platform" where
  "ex_platform text =
     \<lparr>md5_hex = ex_md5,
      read_text = (\<lambda>path. if path = ''/vault/work/b.md'' then Inr text else Inl OSError),
      frontmatter_loads = (\<lambda>content. Inr ([], strip content)),
      relative_to_parts = (\<lambda>path base. if path = ''/vault/work/b.md'' \<and> base = ''/vault/work''
                                         then Inr [''b.md''] else Inl ValueError),
      path_name = (\<lambda>path. ''b.md''),
      path_stem = (\<lambda>path. ''b''),
      py_str = text_of,
      new_DocumentChunk = typed_DocumentChunk,
      embed_service = (\<lambda>n req. Inr (replicate 768 0)),
      store_fails = (\<lambda>op. False),
      cancel_arrives = (\<lambda>i. False)\<rparr>"

definition ex_indexer :: indexer where
  "ex_indexer =
     \<lparr>chunk_size = 500, chunk_overlap = 50,
      vault_work_path = ''/vault/work'', vault_personal_path = ''/vault/personal'',
      excluded_folders_list = [''.obsidian''],
      idx_embedding_model = ''nomic-embed-text'',
      has_fts_index = True,
      embedding_cache = [],
      cancel_requested = False\<rparr>"

definition work_world :: world where
  "work_world = \<lparr>embed_calls = [], tables = [(''work'', []), (''personal'', [])], fts_rows = []\<rparr>"

section \<open>Facts about the fusion functions\<close>

lemma set_first_occ [simp]: "set (first_occ xs) = set xs"
  by (induction xs) auto

lemma distinct_first_occ [simp]: "distinct (first_occ xs)"
  by (induction xs) auto

lemma first_occ_snoc:
  "first_occ (xs @ [x]) = (if x \<in> set xs then first_occ xs else first_occ xs @ [x])"
  by (induction xs) auto

lemma first_occ_distinct: "distinct xs \<Longrightarrow> first_occ xs = xs"
  by (induction xs) (auto simp: filter_id_conv)

lemma map_of_keyed:
  "map_of (map (\<lambda>u. (u, f u)) ks) v = (if v \<in> set ks then Some (f v) else None)"
  by (induction ks) auto

lemma update_keyed_new:
  "v \<notin> set ks \<Longrightarrow> AList.update v x (map (\<lambda>u. (u, f u)) ks) = map (\<lambda>u. (u, f u)) ks @ [(v, x)]"
  by (induction ks) auto

lemma update_keyed_old:
  "v \<in> set ks \<Longrightarrow> distinct ks \<Longrightarrow>
   AList.update v x (map (\<lambda>u. (u, f u)) ks) = map (\<lambda>u. (u, if u = v then x else f u)) ks"
  by (induction ks) (auto simp: update_keyed_new)

lemma hranks_snoc:
  "hranks id_key v (h @ [(r, d)]) = hranks id_key v h @ (if dict_get d id_key = v then [r] else [])"
  by (simp add: hranks_def)

lemma hranks_empty_iff: "hranks id_key v h = [] \<longleftrightarrow> v \<notin> set (hkeys id_key h)"
  by (auto simp: hranks_def hkeys_def filter_empty_conv)

lemma hdoc_snoc:
  "hdoc id_key v (h @ [(r, d)]) =
     (if v \<in> set (hkeys id_key h) then hdoc id_key v h
      else if dict_get d id_key = v then d else [])"
proof (induction h)
  case Nil
  then show ?case by (simp add: hdoc_def hkeys_def)
next
  case (Cons p h)
  then show ?case by (auto simp: hdoc_def hkeys_def split: option.splits)
qed

lemma hkeys_snoc:
  "hkeys id_key (h @ [(r, d)]) =
     (if dict_get d id_key \<in> set (hkeys id_key h) then hkeys id_key h
      else hkeys id_key h @ [dict_get d id_key])"
  by (simp add: hkeys_def first_occ_snoc)

lemma rrf_sum_snoc: "rrf_sum k (rs @ [r]) = rrf_sum k rs + 1 / of_int (k + int r + 1)"
  by (simp add: rrf_sum_def)

lemma Min_snoc: "rs \<noteq> [] \<Longrightarrow> Min (set (rs @ [r])) = min r (Min (set rs))"
  by simp

lemma keyed_step_new:
  assumes "v \<notin> set ks" and "\<And>u. u \<in> set ks \<Longrightarrow> g u = f u" and "g v = x"
  shows "AList.update v x (map (\<lambda>u. (u, f u)) ks) = map (\<lambda>u. (u, g u)) (ks @ [v])"
  using assms by (simp add: update_keyed_new)

lemma keyed_step_old:
  assumes "v \<in> set ks" and "distinct ks"
    and "\<And>u. u \<in> set ks \<Longrightarrow> u \<noteq> v \<Longrightarrow> g u = f u" and "g v = x"
  shows "AList.update v x (map (\<lambda>u. (u, f u)) ks) = map (\<lambda>u. (u, g u)) ks"
  using assms by (simp add: update_keyed_old)

lemma rrf_visit_abs:
  "rrf_visit k id_key rank d (rrf_abs k id_key h) =
     (if \<not> truthy (dict_get d id_key) then Inr (rrf_abs k id_key h)
      else if \<not> hashable (dict_get d id_key) then Inl TypeError
      else if k + int rank + 1 = 0 then Inl ZeroDivisionError
      else Inr (rrf_abs k id_key (h @ [(rank, d)])))"
proof (cases "truthy (dict_get d id_key) \<and> hashable (dict_get d id_key) \<and> k + int rank + 1 \<noteq> 0")
  case False
  then show ?thesis by (auto simp: rrf_visit_def Let_def)
next
  case True
  define v where "v = dict_get d id_key"
  define ks where "ks = hkeys id_key h"
  define h' where "h' = h @ [(rank, d)]"
  define x where "x = (1::rat) / of_int (k + int rank + 1)"
  define S where "S = map (\<lambda>u. (u, rrf_sum k (hranks id_key u h))) ks"
  define D where "D = map (\<lambda>u. (u, hdoc id_key u h)) ks"
  define T where "T = map (\<lambda>u. (u, Min (set (hranks id_key u h)))) ks"
  have st: "rrf_abs k id_key h = \<lparr>scores = S, docs = D, top_ranks = T\<rparr>"
    by (simp add: rrf_abs_def S_def D_def T_def ks_def)
  have dks: "distinct ks" by (simp add: ks_def hkeys_def)
  have ranks_other: "\<And>u. u \<noteq> v \<Longrightarrow> hranks id_key u h' = hranks id_key u h"
    by (simp add: h'_def hranks_snoc v_def)
  have ranks_v: "hranks id_key v h' = hranks id_key v h @ [rank]"
    by (simp add: h'_def hranks_snoc v_def)
  show ?thesis
  proof (cases "v \<in> set ks")
    case new: False
    have ks': "hkeys id_key h' = ks @ [v]"
      using new by (simp add: h'_def hkeys_snoc ks_def v_def)
    have r0: "hranks id_key v h = []"
      using new by (simp add: hranks_empty_iff ks_def)
    have lookS: "map_of S v = None" using new by (simp add: S_def map_of_keyed)
    have ranks_ks: "\<And>u. u \<in> set ks \<Longrightarrow> hranks id_key u h' = hranks id_key u h"
      using new ranks_other by metis
    have S1: "AList.update v x (AList.update v 0 S)
              = map (\<lambda>u. (u, rrf_sum k (hranks id_key u h'))) (ks @ [v])"
      unfolding AList.update_last S_def
      by (rule keyed_step_new) (use new r0 ranks_ks ranks_v in \<open>auto simp: rrf_sum_def x_def\<close>)
    have D1: "AList.update v d D = map (\<lambda>u. (u, hdoc id_key u h')) (ks @ [v])"
      unfolding D_def
      by (rule keyed_step_new) (use new in \<open>auto simp: h'_def hdoc_snoc v_def ks_def\<close>)
    have T1: "AList.update v rank T = map (\<lambda>u. (u, Min (set (hranks id_key u h')))) (ks @ [v])"
      unfolding T_def
      by (rule keyed_step_new) (use new r0 ranks_ks ranks_v in auto)
    have look1: "map_of (AList.update v 0 S) v = Some 0"
      by (simp add: AList.update_conv')
    have look2: "map_of (AList.update v rank T) v = Some rank"
      by (simp add: AList.update_conv')
    have "rrf_visit k id_key rank d \<lparr>scores = S, docs = D, top_ranks = T\<rparr>
          = Inr \<lparr>scores = AList.update v x (AList.update v 0 S),
                 docs = AList.update v d D, top_ranks = AList.update v rank T\<rparr>"
      using True lookS look1 look2
      by (simp add: rrf_visit_def Let_def x_def flip: v_def)
    also have "\<dots> = Inr (rrf_abs k id_key h')"
      unfolding S1 D1 T1 by (simp add: rrf_abs_def ks')
    finally show ?thesis
      using True unfolding st by (simp flip: v_def h'_def)
  next
    case old: True
    have ks': "hkeys id_key h' = ks"
      using old by (simp add: h'_def hkeys_snoc ks_def v_def)
    have rne: "hranks id_key v h \<noteq> []"
      using old by (simp add: hranks_empty_iff ks_def)
    define s where "s = rrf_sum k (hranks id_key v h)"
    define t where "t = Min (set (hranks id_key v h))"
    have lookS: "map_of S v = Some s" using old by (simp add: S_def map_of_keyed s_def)
    have lookT: "map_of T v = Some t" using old by (simp add: T_def map_of_keyed t_def)
    have S1: "AList.update v (s + x) S = map (\<lambda>u. (u, rrf_sum k (hranks id_key u h'))) ks"
      unfolding S_def
      by (rule keyed_step_old)
         (use old dks ranks_other ranks_v in \<open>auto simp: rrf_sum_def x_def s_def\<close>)
    have D1: "D = map (\<lambda>u. (u, hdoc id_key u h')) ks"
      unfolding D_def by (rule map_cong) (auto simp: h'_def hdoc_snoc ks_def)
    have minv: "Min (set (hranks id_key v h')) = min rank t"
      using rne ranks_v by (simp add: t_def)
    have T1: "(if rank < t then AList.update v rank T else T)
              = map (\<lambda>u. (u, Min (set (hranks id_key u h')))) ks"
    proof (cases "rank < t")
      case lt: True
      have "AList.update v rank T = map (\<lambda>u. (u, Min (set (hranks id_key u h')))) ks"
        unfolding T_def
        by (rule keyed_step_old) (use old dks ranks_other minv lt in auto)
      with lt show ?thesis by simp
    next
      case ge: False
      have "T = map (\<lambda>u. (u, Min (set (hranks id_key u h')))) ks"
        unfolding T_def
      proof (rule map_cong)
        fix u assume "u \<in> set ks"
        show "(u, Min (set (hranks id_key u h))) = (u, Min (set (hranks id_key u h')))"
        proof (cases "u = v")
          case True
          then show ?thesis using ge minv by (simp add: min_def t_def)
        next
          case False
          then show ?thesis using ranks_other by simp
        qed
      qed simp
      with ge show ?thesis by simp
    qed
    have "rrf_visit k id_key rank d \<lparr>scores = S, docs = D, top_ranks = T\<rparr>
          = Inr \<lparr>scores = AList.update v (s + x) S, docs = D,
                 top_ranks = (if rank < t then AList.update v rank T else T)\<rparr>"
      using True lookS lookT
      by (simp add: rrf_visit_def Let_def x_def flip: v_def)
    also have "\<dots> = Inr (rrf_abs k id_key h')"
      unfolding S1 T1 by (subst D1) (simp add: rrf_abs_def ks')
    finally show ?thesis
      using True unfolding st by (simp flip: v_def h'_def)
  qed
qed

lemma rrf_inner_abs:
  "rrf_inner k id_key r ds (rrf_abs k id_key h) = Inr st \<Longrightarrow>
   st = rrf_abs k id_key (h @ visited id_key r ds)"
proof (induction ds arbitrary: r h)
  case Nil
  then show ?case by (simp add: visited_def)
next
  case (Cons d ds)
  show ?case
  proof (cases "truthy (dict_get d id_key)")
    case True
    with Cons.prems have "rrf_inner k id_key (Suc r) ds (rrf_abs k id_key (h @ [(r, d)])) = Inr st"
      by (simp add: rrf_visit_abs split: if_splits)
    from Cons.IH[OF this] show ?thesis using True by (simp add: visited_def)
  next
    case False
    with Cons.prems have "rrf_inner k id_key (Suc r) ds (rrf_abs k id_key h) = Inr st"
      by (simp add: rrf_visit_abs)
    from Cons.IH[OF this] show ?thesis using False by (simp add: visited_def)
  qed
qed

lemma rrf_inner_ok:
  "\<forall>p \<in> set (enumerate r ds). visit_ok k id_key p \<Longrightarrow>
   rrf_inner k id_key r ds (rrf_abs k id_key h) = Inr (rrf_abs k id_key (h @ visited id_key r ds))"
proof (induction ds arbitrary: r h)
  case Nil
  then show ?case by (simp add: visited_def)
next
  case (Cons d ds)
  have ok: "visit_ok k id_key (r, d)" and rest: "\<forall>p \<in> set (enumerate (Suc r) ds). visit_ok k id_key p"
    using Cons.prems by simp_all
  show ?case
  proof (cases "truthy (dict_get d id_key)")
    case True
    then show ?thesis
      using ok Cons.IH[OF rest, of "h @ [(r, d)]"]
      by (simp add: rrf_visit_abs visit_ok_def visited_def)
  next
    case False
    then show ?thesis
      using Cons.IH[OF rest, of h] by (simp add: rrf_visit_abs visited_def)
  qed
qed

lemma rrf_outer_abs:
  "rrf_outer k id_key ls (rrf_abs k id_key h) = Inr st \<Longrightarrow>
   st = rrf_abs k id_key (h @ appearances id_key ls)"
proof (induction ls arbitrary: h)
  case Nil
  then show ?case by (simp add: appearances_def)
next
  case (Cons l ls)
  from Cons.prems obtain st1 where
    1: "rrf_inner k id_key 0 l (rrf_abs k id_key h) = Inr st1" and
    2: "rrf_outer k id_key ls st1 = Inr st"
    by (auto split: sum.splits)
  from rrf_inner_abs[OF 1] have "st1 = rrf_abs k id_key (h @ visited id_key 0 l)" .
  with 2 Cons.IH[of "h @ visited id_key 0 l"] show ?case
    by (simp add: appearances_def)
qed

lemma rrf_outer_ok:
  "\<forall>l \<in> set ls. \<forall>p \<in> set (enumerate 0 l). visit_ok k id_key p \<Longrightarrow>
   rrf_outer k id_key ls (rrf_abs k id_key h) = Inr (rrf_abs k id_key (h @ appearances id_key ls))"
proof (induction ls arbitrary: h)
  case Nil
  then show ?case by (simp add: appearances_def)
next
  case (Cons l ls)
  then show ?case by (simp add: rrf_inner_ok appearances_def)
qed

lemma rrf_empty_abs: "rrf_empty = rrf_abs k id_key []"
  by (simp add: rrf_empty_def rrf_abs_def hkeys_def)

lemma apply_bonus_keyed:
  "distinct ks \<Longrightarrow> distinct ks' \<Longrightarrow> set ks' \<subseteq> set ks \<Longrightarrow>
   apply_bonus (map (\<lambda>u. (u, t u)) ks') (map (\<lambda>u. (u, f u)) ks)
     = Inr (map (\<lambda>u. (u, f u + (if u \<in> set ks' then rank_bonus (t u) else 0))) ks)"
proof (induction ks' arbitrary: f)
  case Nil
  then show ?case by simp
next
  case (Cons a ks')
  have a: "a \<in> set ks" "a \<notin> set ks'" and d': "distinct ks'" and sub: "set ks' \<subseteq> set ks"
    using Cons.prems by auto
  define b where "b = rank_bonus (t a)"
  define f' where "f' = (\<lambda>u. if u = a then f a + b else f u)"
  have upd: "AList.update a (f a + b) (map (\<lambda>u. (u, f u)) ks) = map (\<lambda>u. (u, f' u)) ks"
    using a Cons.prems(1) by (simp add: update_keyed_old f'_def)
  have noupd: "b = 0 \<Longrightarrow> map (\<lambda>u. (u, f u)) ks = map (\<lambda>u. (u, f' u)) ks"
    by (simp add: f'_def)
  have step: "apply_bonus (map (\<lambda>u. (u, t u)) (a # ks')) (map (\<lambda>u. (u, f u)) ks)
              = apply_bonus (map (\<lambda>u. (u, t u)) ks') (map (\<lambda>u. (u, f' u)) ks)"
  proof (cases "t a = 0")
    case True
    then have "b = 5 / 100" by (simp add: b_def rank_bonus_def)
    with True upd a show ?thesis by (simp add: map_of_keyed)
  next
    case nz: False
    show ?thesis
    proof (cases "t a \<le> 2")
      case True
      then have "b = 2 / 100" using nz by (simp add: b_def rank_bonus_def)
      with True nz upd a show ?thesis by (simp add: map_of_keyed)
    next
      case False
      then have "b = 0" using nz by (simp add: b_def rank_bonus_def)
      from noupd[OF this] False nz show ?thesis by (simp del: map_eq_conv)
    qed
  qed
  have "map (\<lambda>u. (u, f' u + (if u \<in> set ks' then rank_bonus (t u) else 0))) ks
        = map (\<lambda>u. (u, f u + (if u \<in> set (a # ks') then rank_bonus (t u) else 0))) ks"
    using a by (intro map_cong) (auto simp: f'_def b_def)
  with step Cons.IH[OF Cons.prems(1) d' sub, of f'] show ?case by simp
qed

lemma insort_key_map:
  "insort_key f (g x) (map g xs) = map g (insort_key (\<lambda>u. f (g u)) x xs)"
  by (induction xs) auto

lemma sort_key_map: "sort_key f (map g xs) = map g (sort_key (\<lambda>u. f (g u)) xs)"
  by (induction xs) (auto simp: insort_key_map)

lemma build_results_keyed:
  "set us \<subseteq> set ks \<Longrightarrow>
   build_results score_key (map (\<lambda>u. (u, D u)) ks) (map (\<lambda>u. (u, F u)) us) acc
     = Inr (acc @ map (\<lambda>p. decorate score_key (D (snd p)) (F (snd p)) (fst p))
                      (enumerate (length acc) us))"
proof (induction us arbitrary: acc)
  case Nil
  then show ?case by simp
next
  case (Cons u us)
  then show ?case by (simp add: map_of_keyed decorate_def)
qed

lemma hranks_append: "hranks id_key v (xs @ ys) = hranks id_key v xs @ hranks id_key v ys"
  by (simp add: hranks_def)

lemma hranks_visited:
  "truthy v \<Longrightarrow> hranks id_key v (visited id_key r l)
     = map fst (filter (\<lambda>p. dict_get (snd p) id_key = v) (enumerate r l))"
  unfolding hranks_def visited_def filter_filter
  by (rule arg_cong[where f = "map fst"], rule filter_cong) auto

lemma hranks_appearances:
  "truthy v \<Longrightarrow> hranks id_key v (appearances id_key ls) = ranks_of id_key v ls"
proof (induction ls)
  case Nil
  then show ?case by (simp add: appearances_def ranks_of_def hranks_def)
next
  case (Cons l ls)
  then have "hranks id_key v (appearances id_key ls) = ranks_of id_key v ls" by simp
  moreover have "appearances id_key (l # ls) = visited id_key 0 l @ appearances id_key ls"
    by (simp add: appearances_def)
  moreover have "ranks_of id_key v (l # ls)
      = map fst (filter (\<lambda>p. dict_get (snd p) id_key = v) (enumerate 0 l)) @ ranks_of id_key v ls"
    by (simp add: ranks_of_def)
  ultimately show ?case using Cons.prems by (simp add: hranks_append hranks_visited)
qed

lemma map_id_visited:
  "map (\<lambda>p. dict_get (snd p) id_key) (visited id_key r l)
     = filter truthy (map (\<lambda>d. dict_get d id_key) l)"
  by (induction l arbitrary: r) (auto simp: visited_def)

lemma hkeys_appearances: "hkeys id_key (appearances id_key ls) = seen_ids id_key ls"
proof -
  have "map (\<lambda>p. dict_get (snd p) id_key) (appearances id_key ls)
        = filter truthy (concat (map (map (\<lambda>d. dict_get d id_key)) ls))"
    by (induction ls) (auto simp: appearances_def map_id_visited)
  then show ?thesis by (simp add: hkeys_def seen_ids_def)
qed

lemma set_seen_ids:
  "set (seen_ids id_key ls) = {v. truthy v \<and> (\<exists>l \<in> set ls. \<exists>d \<in> set l. dict_get d id_key = v)}"
  by (auto simp: seen_ids_def)

lemma hdoc_id: "u \<in> set (hkeys id_key h) \<Longrightarrow> dict_get (hdoc id_key u h) id_key = u"
proof -
  assume "u \<in> set (hkeys id_key h)"
  then have "find (\<lambda>p. dict_get (snd p) id_key = u) h \<noteq> None"
    unfolding find_None_iff by (force simp: hkeys_def)
  then obtain p where p: "find (\<lambda>p. dict_get (snd p) id_key = u) h = Some p"
    by blast
  then have "dict_get (snd p) id_key = u"
    by (auto simp: find_Some_iff)
  with p show ?thesis by (simp add: hdoc_def)
qed

lemma dict_get_update:
  "dict_get (AList.update key v d) key' = (if key' = key then v else dict_get d key')"
  by (simp add: dict_get_def AList.update_conv')

lemma rrf_result:
  assumes "reciprocal_rank_fusion ls k id_key score_key b = Inr out"
  defines "h \<equiv> appearances id_key ls"
  defines "F \<equiv> \<lambda>u. fused_score k b (hranks id_key u h)"
  shows "out = map (\<lambda>p. decorate score_key (hdoc id_key (snd p) h) (F (snd p)) (fst p))
                   (enumerate 0 (sort_key (\<lambda>u. - F u) (hkeys id_key h)))"
proof (cases "ls = []")
  case True
  with assms show ?thesis
    by (simp add: reciprocal_rank_fusion_def appearances_def hkeys_def)
next
  case False
  define ks where "ks = hkeys id_key h"
  have dks: "distinct ks" by (simp add: ks_def hkeys_def)
  from assms(1) False obtain st sc where
    1: "rrf_outer k id_key ls rrf_empty = Inr st" and
    2: "(if b then apply_bonus (top_ranks st) (scores st) else Inr (scores st)) = Inr sc" and
    3: "build_results score_key (docs st) (sort_scores sc) [] = Inr out"
    by (auto simp: reciprocal_rank_fusion_def split: sum.splits)
  have st: "st = rrf_abs k id_key h"
    using rrf_outer_abs[of k id_key ls "[]" st] 1 by (simp add: h_def flip: rrf_empty_abs)
  have sc: "sc = map (\<lambda>u. (u, F u)) ks"
  proof (cases b)
    case True
    have "apply_bonus (top_ranks st) (scores st)
          = Inr (map (\<lambda>u. (u, rrf_sum k (hranks id_key u h)
                   + (if u \<in> set ks then rank_bonus (Min (set (hranks id_key u h))) else 0))) ks)"
      unfolding st rrf_abs_def ks_def[symmetric] using dks
      by (simp add: apply_bonus_keyed)
    also have "\<dots> = Inr (map (\<lambda>u. (u, F u)) ks)"
      using True by (simp add: F_def fused_score_def)
    finally show ?thesis using 2 True by simp
  next
    case False
    then show ?thesis using 2
      by (auto simp: st rrf_abs_def F_def fused_score_def ks_def)
  qed
  have sorted: "sort_scores sc = map (\<lambda>u. (u, F u)) (sort_key (\<lambda>u. - F u) ks)"
    by (simp add: sort_scores_def sc sort_key_map)
  have "build_results score_key (docs st) (sort_scores sc) []
        = Inr ([] @ map (\<lambda>p. decorate score_key (hdoc id_key (snd p) h) (F (snd p)) (fst p))
                     (enumerate (length ([]::doc list)) (sort_key (\<lambda>u. - F u) ks)))"
    unfolding sorted st rrf_abs_def ks_def[symmetric]
    by (simp only: rrf_state.simps, rule build_results_keyed) simp
  with 3 show ?thesis by (simp add: ks_def)
qed

lemma rrf_total:
  assumes "\<forall>l \<in> set ls. \<forall>p \<in> set (enumerate 0 l). visit_ok k id_key p"
  shows "\<exists>out. reciprocal_rank_fusion ls k id_key score_key b = Inr out"
proof (cases "ls = []")
  case True
  then show ?thesis by (simp add: reciprocal_rank_fusion_def)
next
  case False
  define h where "h = appearances id_key ls"
  define ks where "ks = hkeys id_key h"
  have dks: "distinct ks" by (simp add: ks_def hkeys_def)
  have 1: "rrf_outer k id_key ls rrf_empty = Inr (rrf_abs k id_key h)"
    using rrf_outer_ok[OF assms, of "[]"] by (simp add: h_def flip: rrf_empty_abs)
  have "\<exists>sc. (if b then apply_bonus (top_ranks (rrf_abs k id_key h)) (scores (rrf_abs k id_key h))
                 else Inr (scores (rrf_abs k id_key h))) = Inr (map (\<lambda>u. (u, sc u)) ks)"
  proof (cases b)
    case True
    then show ?thesis
      using dks unfolding rrf_abs_def ks_def[symmetric]
      by (simp only: rrf_state.simps if_True apply_bonus_keyed[OF dks dks subset_refl])
         (rule exI, rule refl)
  next
    case False
    then show ?thesis
      unfolding rrf_abs_def ks_def[symmetric]
      by (simp only: rrf_state.simps if_False) (rule exI, rule refl)
  qed
  then obtain sc where 2: "(if b then apply_bonus (top_ranks (rrf_abs k id_key h)) (scores (rrf_abs k id_key h))
                 else Inr (scores (rrf_abs k id_key h))) = Inr (map (\<lambda>u. (u, sc u)) ks)"
    by blast
  have "\<exists>out. build_results score_key (docs (rrf_abs k id_key h))
          (sort_scores (map (\<lambda>u. (u, sc u)) ks)) [] = Inr out"
    unfolding sort_scores_def sort_key_map rrf_abs_def ks_def[symmetric]
    by (simp only: rrf_state.simps, subst build_results_keyed) simp_all
  with 1 2 False show ?thesis
    by (simp add: reciprocal_rank_fusion_def)
qed

lemma dict_get_decorate:
  "score_key \<noteq> ''rrf_rank'' \<Longrightarrow>
   dict_get (decorate score_key d s i) key =
     (if key = ''rrf_rank'' then VNum (of_nat i) else if key = score_key then VNum s else dict_get d key)"
  by (simp add: decorate_def dict_get_update)

lemma sorted_desc_sort_key:
  "sorted_wrt (\<lambda>a c. F c \<le> (F a :: rat)) (sort_key (\<lambda>u. - F u) ks)"
proof -
  have "sorted (map (\<lambda>u. - F u) (sort_key (\<lambda>u. - F u) ks))"
    by (rule sorted_sort_key)
  then show ?thesis
    by (simp add: sorted_map) 
qed

lemma rank_bonus_antimono: "i \<le> j \<Longrightarrow> rank_bonus j \<le> rank_bonus i"
  by (simp add: rank_bonus_def)

lemma single_score_antimono:
  assumes "i \<le> j"
  shows "1 / of_nat (61 + j) + rank_bonus j \<le> 1 / of_nat (61 + i) + (rank_bonus i :: rat)"
proof -
  have "(1::rat) / of_nat (61 + j) \<le> 1 / of_nat (61 + i)"
    using assms by (intro divide_left_mono) (simp_all)
  with rank_bonus_antimono[OF assms] show ?thesis by linarith
qed

lemma fused_score_single: "fused_score 60 True [i] = 1 / of_nat (61 + i) + rank_bonus i"
  by (simp add: fused_score_def rrf_sum_def add.commute)

lemma find_enumerate_distinct:
  "distinct (map g xs) \<Longrightarrow> i < length xs \<Longrightarrow>
   find (\<lambda>p. g (snd p) = g (xs ! i)) (enumerate n xs) = Some (n + i, xs ! i)"
proof (induction xs arbitrary: n i)
  case Nil
  then show ?case by simp
next
  case (Cons x xs)
  show ?case
  proof (cases i)
    case 0
    then show ?thesis by simp
  next
    case (Suc j)
    with Cons.prems have "g x \<noteq> g (xs ! j)" by auto
    with Suc Cons.prems Cons.IH[of j "Suc n"] show ?thesis by simp
  qed
qed

lemma filter_enumerate_distinct:
  "distinct (map g xs) \<Longrightarrow> i < length xs \<Longrightarrow>
   map fst (filter (\<lambda>p. g (snd p) = g (xs ! i)) (enumerate n xs)) = [n + i]"
proof (induction xs arbitrary: n i)
  case Nil
  then show ?case by simp
next
  case (Cons x xs)
  show ?case
  proof (cases i)
    case 0
    have "\<And>p. p \<in> set (enumerate (Suc n) xs) \<Longrightarrow> g (snd p) \<noteq> g x"
    proof -
      fix p assume "p \<in> set (enumerate (Suc n) xs)"
      then have "snd p \<in> set xs"
        by (metis image_eqI list.set_map map_snd_enumerate)
      moreover have "g x \<notin> g ` set xs" using Cons.prems by simp
      ultimately show "g (snd p) \<noteq> g x" by (metis imageI)
    qed
    then have "filter (\<lambda>p. g (snd p) = g x) (enumerate (Suc n) xs) = []"
      by (auto simp: filter_empty_conv)
    with 0 show ?thesis by simp
  next
    case (Suc j)
    with Cons.prems have "g x \<noteq> g (xs ! j)" by auto
    with Suc Cons.prems Cons.IH[of j "Suc n"] show ?thesis by simp
  qed
qed

lemma map_snd_enumerate_fun: "map (\<lambda>p. f (snd p)) (enumerate n xs) = map f xs"
  by (induction xs arbitrary: n) simp_all

lemma visited_all_truthy:
  "\<forall>d \<in> set l. truthy (dict_get d id_key) \<Longrightarrow> visited id_key r l = enumerate r l"
  by (auto simp: visited_def filter_id_conv in_set_enumerate_eq)

lemma rrf_single_list:
  assumes keys: "score_key \<noteq> ''rrf_rank''"
    and dist: "distinct (map (\<lambda>d. dict_get d id_key) L)"
    and ids: "\<forall>d \<in> set L. truthy (dict_get d id_key) \<and> hashable (dict_get d id_key)"
  shows "reciprocal_rank_fusion [L] 60 id_key score_key True
         = Inr (map (\<lambda>p. decorate score_key (snd p) (1 / of_nat (61 + fst p) + rank_bonus (fst p)) (fst p))
                    (enumerate 0 L))"
proof -
  define g where "g = (\<lambda>d. dict_get d id_key)"
  define h where "h = appearances id_key [L]"
  define F where "F = (\<lambda>u. fused_score 60 True (hranks id_key u h))"
  define n where "n = length L"
  have h: "h = enumerate 0 L"
    using ids by (simp add: h_def appearances_def visited_all_truthy)
  have ks: "hkeys id_key h = map g L"
    using dist
    by (simp add: hkeys_def h first_occ_distinct g_def
          map_snd_enumerate_fun[of "\<lambda>d. dict_get d id_key"])
  have ranks: "hranks id_key (g (L ! i)) h = [i]" if "i < n" for i
    using filter_enumerate_distinct[of g L i 0] that dist
    by (simp add: hranks_def h g_def n_def)
  have hd: "hdoc id_key (g (L ! i)) h = L ! i" if "i < n" for i
    using find_enumerate_distinct[of g L i 0] that dist
    by (simp add: hdoc_def h g_def n_def)
  have Fi: "F (g (L ! i)) = 1 / of_nat (61 + i) + rank_bonus i" if "i < n" for i
    using that by (simp add: F_def ranks fused_score_single)
  have "sorted (map (\<lambda>u. - F u) (map g L))"
    unfolding sorted_iff_nth_mono
  proof (intro allI impI)
    fix i j assume "i \<le> j" "j < length (map (\<lambda>u. - F u) (map g L))"
    then have "i < n" "j < n" by (simp_all add: n_def)
    then show "map (\<lambda>u. - F u) (map g L) ! i \<le> map (\<lambda>u. - F u) (map g L) ! j"
      using single_score_antimono[OF \<open>i \<le> j\<close>] by (simp add: Fi n_def)
  qed
  then have sorted: "sort_key (\<lambda>u. - F u) (map g L) = map g L"
    by (rule sort_key_id_if_sorted)
  have "\<forall>l \<in> set [L]. \<forall>p \<in> set (enumerate 0 l). visit_ok 60 id_key p"
    using ids by (auto simp: visit_ok_def in_set_enumerate_eq)
  from rrf_total[OF this] obtain out where
    run: "reciprocal_rank_fusion [L] 60 id_key score_key True = Inr out" by blast
  have out: "out = map (\<lambda>p. decorate score_key (hdoc id_key (snd p) h) (F (snd p)) (fst p))
                       (enumerate 0 (map g L))"
    using rrf_result[OF run] by (simp add: h_def F_def ks[unfolded h_def] sorted[unfolded F_def h_def])
  have "out = map (\<lambda>p. decorate score_key (snd p) (1 / of_nat (61 + fst p) + rank_bonus (fst p)) (fst p))
                  (enumerate 0 L)"
    unfolding out
    by (rule nth_equalityI) (simp_all add: nth_enumerate_eq hd Fi n_def)
  with run show ?thesis by simp
qed

lemma rrf_ties:
  assumes keys: "score_key \<noteq> ''rrf_rank''" "id_key \<noteq> score_key" "id_key \<noteq> ''rrf_rank''"
    and run: "reciprocal_rank_fusion ls k id_key score_key b = Inr out"
  shows "map (\<lambda>d. dict_get d id_key) (filter (\<lambda>d. num_field score_key d = s) out)
         = filter (\<lambda>v. fused_score k b (ranks_of id_key v ls) = s) (seen_ids id_key ls)"
proof -
  define h where "h = appearances id_key ls"
  define F where "F = (\<lambda>u. fused_score k b (hranks id_key u h))"
  define ks where "ks = sort_key (\<lambda>u. - F u) (hkeys id_key h)"
  define g where "g = (\<lambda>d. dict_get d id_key)"
  have out: "out = map (\<lambda>p. decorate score_key (hdoc id_key (snd p) h) (F (snd p)) (fst p))
                       (enumerate 0 ks)"
    using rrf_result[OF run] by (simp add: h_def F_def ks_def)
  have len: "length out = length ks" by (simp add: out)
  have nth: "out ! i = decorate score_key (hdoc id_key (ks ! i) h) (F (ks ! i)) i"
    if "i < length ks" for i
    using that by (simp add: out nth_enumerate_eq)
  have id_nth: "g (out ! i) = ks ! i" if "i < length ks" for i
  proof -
    have "ks ! i \<in> set (hkeys id_key h)" using that by (metis nth_mem set_sort ks_def)
    then show ?thesis using that keys by (simp add: g_def nth dict_get_decorate hdoc_id)
  qed
  have ids: "map g out = ks"
    by (rule nth_equalityI) (simp_all add: len id_nth)
  have score_nth: "num_field score_key (out ! i) = F (g (out ! i))" if "i < length ks" for i
    unfolding id_nth[OF that] using that keys by (simp add: nth num_field_def dict_get_decorate)
  have "filter (\<lambda>d. num_field score_key d = s) out = filter (\<lambda>d. F (g d) = s) out"
    by (rule filter_cong) (auto simp: in_set_conv_nth len score_nth)
  then have "map g (filter (\<lambda>d. num_field score_key d = s) out) = filter (\<lambda>u. F u = s) (map g out)"
    by (simp add: filter_map comp_def)
  also have "\<dots> = filter (\<lambda>u. - F u = - s) (sort_key (\<lambda>u. - F u) (hkeys id_key h))"
    by (simp add: ids ks_def)
  also have "\<dots> = filter (\<lambda>u. - F u = - s) (hkeys id_key h)"
    by (rule sort_key_stable)
  also have "\<dots> = filter (\<lambda>v. fused_score k b (ranks_of id_key v ls) = s) (seen_ids id_key ls)"
    unfolding h_def hkeys_appearances
    by (rule filter_cong) (auto simp: F_def h_def hranks_appearances set_seen_ids)
  finally show ?thesis by (simp add: g_def)
qed

lemma rrf_ids:
  assumes keys: "score_key \<noteq> ''rrf_rank''" "id_key \<noteq> score_key" "id_key \<noteq> ''rrf_rank''"
    and run: "reciprocal_rank_fusion ls k id_key score_key b = Inr out"
  shows "mset (map (\<lambda>d. dict_get d id_key) out) = mset (seen_ids id_key ls)"
proof -
  define h where "h = appearances id_key ls"
  define F where "F = (\<lambda>u. fused_score k b (hranks id_key u h))"
  define ks where "ks = sort_key (\<lambda>u. - F u) (hkeys id_key h)"
  define g where "g = (\<lambda>d. dict_get d id_key)"
  have out: "out = map (\<lambda>p. decorate score_key (hdoc id_key (snd p) h) (F (snd p)) (fst p))
                       (enumerate 0 ks)"
    using rrf_result[OF run] by (simp add: h_def F_def ks_def)
  have len: "length out = length ks" by (simp add: out)
  have id_nth: "g (out ! i) = ks ! i" if "i < length ks" for i
  proof -
    have "ks ! i \<in> set (hkeys id_key h)" using that by (metis nth_mem set_sort ks_def)
    then show ?thesis using that keys
      by (simp add: g_def out nth_enumerate_eq dict_get_decorate hdoc_id)
  qed
  have "map g out = ks"
    by (rule nth_equalityI) (simp_all add: len id_nth)
  then have "mset (map g out) = mset (hkeys id_key h)" by (simp add: ks_def)
  then show ?thesis by (simp add: g_def h_def hkeys_appearances)
qed

lemma rrf_ties_output:
  assumes keys: "score_key \<noteq> ''rrf_rank''" "id_key \<noteq> score_key" "id_key \<noteq> ''rrf_rank''"
    and run: "reciprocal_rank_fusion ls k id_key score_key b = Inr out"
  shows "map (\<lambda>d. dict_get d id_key) (filter (\<lambda>d. num_field score_key d = s) out)
         = filter (\<lambda>v. v \<in> set (map (\<lambda>d. dict_get d id_key)
                                     (filter (\<lambda>d. num_field score_key d = s) out)))
                  (seen_ids id_key ls)"
proof -
  define T where "T = map (\<lambda>d. dict_get d id_key) (filter (\<lambda>d. num_field score_key d = s) out)"
  have t: "T = filter (\<lambda>v. fused_score k b (ranks_of id_key v ls) = s) (seen_ids id_key ls)"
    unfolding T_def using keys run by (rule rrf_ties)
  have "filter (\<lambda>v. v \<in> set T) (seen_ids id_key ls)
        = filter (\<lambda>v. fused_score k b (ranks_of id_key v ls) = s) (seen_ids id_key ls)"
    by (rule filter_cong) (auto simp: t)
  with t show ?thesis unfolding T_def by simp
qed

lemma blend_loop_result:
  "blend_loop id_key rs i ds acc = Inr res \<Longrightarrow>
   \<exists>pre. res = acc @ pre \<and> length pre = length ds \<and>
         (\<forall>j < length ds. blend_one id_key rs (i + j) (ds ! j) = Inr (pre ! j))"
proof (induction ds arbitrary: i acc)
  case Nil
  then show ?case by simp
next
  case (Cons d ds)
  from Cons.prems obtain r where
    r: "blend_one id_key rs i d = Inr r" and
    rest: "blend_loop id_key rs (Suc i) ds (acc @ [r]) = Inr res"
    by (auto split: sum.splits)
  from Cons.IH[OF rest] obtain pre where
    pre: "res = (acc @ [r]) @ pre" "length pre = length ds"
         "\<forall>j < length ds. blend_one id_key rs (Suc i + j) (ds ! j) = Inr (pre ! j)"
    by blast
  have "\<forall>j < length (d # ds). blend_one id_key rs (i + j) ((d # ds) ! j) = Inr ((r # pre) ! j)"
  proof (intro allI impI)
    fix j assume "j < length (d # ds)"
    then show "blend_one id_key rs (i + j) ((d # ds) ! j) = Inr ((r # pre) ! j)"
      using r pre(3) by (cases j) simp_all
  qed
  with pre(1,2) show ?case
    by (intro exI[of _ "r # pre"]) simp
qed

lemma blend_loop_total:
  "\<forall>d \<in> set ds. \<forall>i. \<exists>r. blend_one id_key rs i d = Inr r \<Longrightarrow>
   \<exists>res. blend_loop id_key rs i ds acc = Inr res"
proof (induction ds arbitrary: i acc)
  case Nil
  then show ?case by simp
next
  case (Cons d ds)
  then obtain r where "blend_one id_key rs i d = Inr r" by (meson list.set_intros(1))
  with Cons show ?case by simp
qed

lemma blend_one_total:
  assumes "hashable (dict_get d id_key)"
    and "map_of d ''score'' = None \<or> (\<exists>x. map_of d ''score'' = Some (VNum x))"
  shows "\<exists>r. blend_one id_key rs i d = Inr r"
  using assms
  by (auto simp: blend_one_def rerank_get_def dict_get_default_def Let_def split: option.splits)

lemma blend_one_fields:
  assumes "blend_one id_key rs i d = Inr res"
  defines "r \<equiv> num_field ''score'' d"
  defines "q \<equiv> rerank_or_zero rs (dict_get d id_key)"
  shows "dict_get res ''score'' = VNum (rrf_weight i * r + (1 - rrf_weight i) * q)"
    and "dict_get res ''rrf_score'' = VNum r"
    and "dict_get res ''rerank_score'' = VNum q"
    and "key \<notin> {''score'', ''rrf_score'', ''rerank_score''} \<Longrightarrow> dict_get res key = dict_get d key"
proof -
  from assms(1) obtain x where
    x: "as_number (dict_get_default d ''score'' (VNum 0)) = Inr x" and
    q: "rerank_get rs (dict_get d id_key) = Inr q" and
    res: "res = AList.update ''score'' (VNum (rrf_weight i * x + (1 - rrf_weight i) * q))
                  (AList.update ''rerank_score'' (VNum q)
                    (AList.update ''rrf_score'' (dict_get_default d ''score'' (VNum 0)) d))"
    by (auto simp: blend_one_def Let_def rerank_get_def rerank_or_zero_def q_def
             split: sum.splits if_splits option.splits)
  from x have v: "dict_get_default d ''score'' (VNum 0) = VNum x"
    by (cases "dict_get_default d ''score'' (VNum 0)") simp_all
  then have "r = x"
    by (auto simp: r_def num_field_def dict_get_def dict_get_default_def split: option.splits)
  with res v show "dict_get res ''score'' = VNum (rrf_weight i * r + (1 - rrf_weight i) * q)"
    and "dict_get res ''rrf_score'' = VNum r"
    and "dict_get res ''rerank_score'' = VNum q"
    and "key \<notin> {''score'', ''rrf_score'', ''rerank_score''} \<Longrightarrow> dict_get res key = dict_get d key"
    by (simp_all add: dict_get_update)
qed

lemma blend_weights:
  "rrf_weight i * r + (1 - rrf_weight i) * q
   = (if i < 3 then 75 / 100 * r + 25 / 100 * q
      else if i < 10 then 60 / 100 * r + 40 / 100 * q
      else 40 / 100 * r + 60 / 100 * q)"
  by (simp add: rrf_weight_def)
section \<open>Facts about the reranker and the searcher\<close>

lemma expand_query_head: "\<exists>alts. expand_query rr query = query # alts"
  by (simp add: expand_query_def Let_def split: sum.splits)

lemma hybrid_all_Cons:
  assumes "hybrid_all s w (q # qs) vault category person = (Inr rs, w')"
  shows "\<exists>h0 w0 rest. hybrid_search s w q vault category person 30 = (Inr h0, w0)
           \<and> hybrid_all s w0 qs vault category person = (Inr rest, w') \<and> rs = h0 # rest"
  using assms by (auto split: prod.splits sum.splits)

lemma hybrid_all_length:
  "hybrid_all s w qs vault category person = (Inr rs, w') \<Longrightarrow> length rs = length qs"
proof (induction qs arbitrary: w rs)
  case Nil
  then show ?case by simp
next
  case (Cons q qs)
  from hybrid_all_Cons[OF Cons.prems] obtain h0 w0 rest where
    "hybrid_all s w0 qs vault category person = (Inr rest, w')" "rs = h0 # rest" by blast
  with Cons.IH show ?case by simp
qed

lemma ranks_of_Cons:
  "ranks_of id_key v (l # ls) = ranks_of id_key v [l] @ ranks_of id_key v ls"
  by (simp add: ranks_of_def)

lemma rrf_sum_append: "rrf_sum k (xs @ ys) = rrf_sum k xs + rrf_sum k ys"
  by (simp add: rrf_sum_def)

lemma strip_Nil [simp]: "strip [] = []"
  by (simp add: strip_def)

lemma upper_Nil [simp]: "upper [] = []"
  by (simp add: upper_def)

lemma generate_down:
  "\<forall>req. \<exists>e. llm_backend rr req = Inl e \<Longrightarrow> generate rr prompt = []"
proof -
  assume "\<forall>req. \<exists>e. llm_backend rr req = Inl e"
  then obtain e where "llm_backend rr \<lparr>llm_model = rr_model rr, llm_prompt = prompt,
                            llm_temperature = 0, llm_num_predict = 10\<rparr> = Inl e" by blast
  then show ?thesis by (simp add: generate_def)
qed

lemma score_document_down:
  assumes "\<forall>req. \<exists>e. llm_backend rr req = Inl e"
  shows "score_document rr query v =
           (case v of VStr s \<Rightarrow> Inr (1 / 2) | VList xs \<Rightarrow> Inr (1 / 2) | _ \<Rightarrow> Inl TypeError)"
  by (cases v) (simp_all add: score_document_def generate_down[OF assms] startswith_def)

lemma score_with_semaphore_down:
  assumes "\<forall>req. \<exists>e. llm_backend rr req = Inl e"
  shows "score_with_semaphore rr query content_key id_key d =
           (if scorable content_key d then Inr (dict_get_default d id_key (VStr ''''), 1 / 2)
            else Inl TypeError)"
  unfolding score_with_semaphore_def Let_def score_document_down[OF assms]
  by (simp add: scorable_def content_of_def Let_def split: val.splits)

lemma update_append_new: "k \<notin> fst ` set al \<Longrightarrow> AList.update k v al = al @ [(k, v)]"
  by (induction al) auto

lemma collect_scores_keys:
  "collect_scores results acc = Inr m \<Longrightarrow>
   fst ` set m = fst ` set acc \<union> {v. \<exists>x. Inr (v, x) \<in> set results}"
proof (induction results acc rule: collect_scores.induct)
  case (1 score_map)
  then show ?case by simp
next
  case (2 e results score_map)
  then show ?case by auto
next
  case (3 doc_id score results score_map)
  then have "fst ` set m = fst ` set (AList.update doc_id score score_map)
                 \<union> {v. \<exists>x. Inr (v, x) \<in> set results}"
    by (simp split: if_splits)
  then show ?case by (auto simp: AList.dom_update)
qed

lemma collect_half:
  assumes "\<forall>d \<in> set ds. hashable (g d)" and "distinct (map g ds)"
    and "g ` set ds \<inter> fst ` set acc = {}"
  shows "collect_scores
           (map (\<lambda>d. if P d then Inr (g d, 1 / 2) else Inl TypeError) ds) acc
         = Inr (acc @ map (\<lambda>d. (g d, 1 / 2)) (filter P ds))"
  using assms
proof (induction ds arbitrary: acc)
  case Nil
  then show ?case by simp
next
  case (Cons d ds)
  show ?case
  proof (cases "P d")
    case True
    have new: "g d \<notin> fst ` set acc" using Cons.prems(3) by auto
    have "g ` set ds \<inter> fst ` set (acc @ [(g d, 1 / 2 :: rat)]) = {}"
      using Cons.prems(2,3) by auto
    with Cons.IH[of "acc @ [(g d, 1 / 2)]"] Cons.prems True new show ?thesis
      by (simp add: update_append_new)
  next
    case False
    have "g ` set ds \<inter> fst ` set acc = {}" using Cons.prems(3) by auto
    with Cons.IH[of acc] Cons.prems False show ?thesis by simp
  qed
qed

lemma rrf_inner_visits_ok:
  "rrf_inner k id_key r ds (rrf_abs k id_key h) = Inr st \<Longrightarrow>
   \<forall>p \<in> set (enumerate r ds). visit_ok k id_key p"
proof (induction ds arbitrary: r h)
  case Nil
  then show ?case by simp
next
  case (Cons d ds)
  from Cons.prems obtain st1 where
    1: "rrf_visit k id_key r d (rrf_abs k id_key h) = Inr st1" and
    2: "rrf_inner k id_key (Suc r) ds st1 = Inr st"
    by (auto split: sum.splits)
  from 1 have ok: "visit_ok k id_key (r, d)"
    by (auto simp: rrf_visit_abs visit_ok_def split: if_splits)
  from 1 have "\<exists>h'. st1 = rrf_abs k id_key h'"
    by (auto simp: rrf_visit_abs split: if_splits)
  then obtain h' where "st1 = rrf_abs k id_key h'" by blast
  with 2 Cons.IH[of "Suc r" h'] ok show ?case by simp
qed

lemma rrf_outer_visits_ok:
  "rrf_outer k id_key ls (rrf_abs k id_key h) = Inr st \<Longrightarrow>
   \<forall>l \<in> set ls. \<forall>p \<in> set (enumerate 0 l). visit_ok k id_key p"
proof (induction ls arbitrary: h)
  case Nil
  then show ?case by simp
next
  case (Cons l ls)
  from Cons.prems obtain st1 where
    1: "rrf_inner k id_key 0 l (rrf_abs k id_key h) = Inr st1" and
    2: "rrf_outer k id_key ls st1 = Inr st"
    by (auto split: sum.splits)
  from rrf_inner_abs[OF 1] 2 Cons.IH rrf_inner_visits_ok[OF 1] show ?case by auto
qed

lemma rrf_output_wf:
  assumes keys: "score_key \<noteq> ''rrf_rank''" "id_key \<noteq> score_key" "id_key \<noteq> ''rrf_rank''"
    and run: "reciprocal_rank_fusion ls k id_key score_key b = Inr out"
  shows "distinct (map (\<lambda>d. dict_get d id_key) out)"
    and "\<forall>d \<in> set out. truthy (dict_get d id_key) \<and> hashable (dict_get d id_key)
           \<and> (\<exists>x. map_of d score_key = Some (VNum x))"
proof -
  define h where "h = appearances id_key ls"
  define F where "F = (\<lambda>u. fused_score k b (hranks id_key u h))"
  define ks where "ks = sort_key (\<lambda>u. - F u) (hkeys id_key h)"
  have out: "out = map (\<lambda>p. decorate score_key (hdoc id_key (snd p) h) (F (snd p)) (fst p))
                       (enumerate 0 ks)"
    using rrf_result[OF run] by (simp add: h_def F_def ks_def)
  have len: "length out = length ks" by (simp add: out)
  have nth: "out ! i = decorate score_key (hdoc id_key (ks ! i) h) (F (ks ! i)) i"
    if "i < length ks" for i
    using that by (simp add: out nth_enumerate_eq)
  have id_nth: "dict_get (out ! i) id_key = ks ! i" if "i < length ks" for i
  proof -
    have "ks ! i \<in> set (hkeys id_key h)" using that by (metis nth_mem set_sort ks_def)
    then show ?thesis using that keys by (simp add: nth dict_get_decorate hdoc_id)
  qed
  have ids: "map (\<lambda>d. dict_get d id_key) out = ks"
    by (rule nth_equalityI) (simp_all add: len id_nth)
  show "distinct (map (\<lambda>d. dict_get d id_key) out)"
    unfolding ids by (simp add: ks_def hkeys_def)
  have ok: "\<forall>l \<in> set ls. \<forall>p \<in> set (enumerate 0 l). visit_ok k id_key p"
  proof (cases "ls = []")
    case True
    then show ?thesis by simp
  next
    case False
    with run obtain st where "rrf_outer k id_key ls rrf_empty = Inr st"
      by (auto simp: reciprocal_rank_fusion_def split: sum.splits)
    then show ?thesis
      using rrf_outer_visits_ok[of k id_key ls "[]" st] by (simp flip: rrf_empty_abs)
  qed
  have ks_ok: "truthy u \<and> hashable u" if "u \<in> set ks" for u
  proof -
    from that have "u \<in> set (seen_ids id_key ls)"
      by (simp add: ks_def h_def hkeys_appearances)
    then obtain l d where l: "l \<in> set ls" "d \<in> set l" "dict_get d id_key = u" and t: "truthy u"
      by (auto simp: set_seen_ids)
    from l(2) obtain r where "r < length l" "l ! r = d"
      by (auto simp: in_set_conv_nth)
    then have "(r, d) \<in> set (enumerate 0 l)"
      by (simp add: in_set_enumerate_eq)
    with ok l(1) have "visit_ok k id_key (r, d)" by blast
    with t l(3) show ?thesis by (simp add: visit_ok_def)
  qed
  show "\<forall>d \<in> set out. truthy (dict_get d id_key) \<and> hashable (dict_get d id_key)
           \<and> (\<exists>x. map_of d score_key = Some (VNum x))"
  proof
    fix d assume "d \<in> set out"
    then obtain i where i: "i < length ks" "d = out ! i"
      by (auto simp: in_set_conv_nth len)
    have "ks ! i \<in> set ks" using i(1) by simp
    from ks_ok[OF this] id_nth[OF i(1)] i(2)
    have a: "truthy (dict_get d id_key) \<and> hashable (dict_get d id_key)" by simp
    have "map_of d score_key = Some (VNum (F (ks ! i)))"
      using i keys by (simp add: nth decorate_def AList.update_conv')
    with a show "truthy (dict_get d id_key) \<and> hashable (dict_get d id_key)
           \<and> (\<exists>x. map_of d score_key = Some (VNum x))" by blast
  qed
qed

lemma py_take_nat [simp]: "py_take (int n) xs = take n xs"
  by (simp add: py_take_def)

lemma py_take_30 [simp]: "py_take 30 xs = take 30 xs"
  using py_take_nat[of 30 xs] by simp

lemma truthy_get_default:
  "truthy (dict_get d key) \<Longrightarrow> dict_get_default d key dflt = dict_get d key"
  by (auto simp: dict_get_def dict_get_default_def split: option.splits)

text \<open>
  The reranker with its backend down, for every input.  \<open>_generate\<close> catches the failure
  and returns the empty string, so the scoring task of a record does not raise for that
  and the record is scored 0.5; the task raises only when the content cannot be sliced.
  The map that \<open>rerank\<close> returns holds exactly the ids of the records among the first
  \<open>top_k\<close> whose task did not raise.  And \<open>query_search\<close> with reranking returns the
  first \<open>limit\<close> records of the position-aware blend of the fused list with the score
  0.5 for each scorable record among its first 30.
\<close>

lemma rerank_down_scores_half:
  assumes down: "\<forall>req. \<exists>e. llm_backend rr req = Inl e"
  shows
   "(\<forall>d. score_with_semaphore rr query content_key id_key d
          = (if scorable content_key d then Inr (dict_get_default d id_key (VStr ''''), 1 / 2)
             else Inl TypeError))
  \<and> (\<forall>m. rerank rr query documents content_key id_key top_k 5 = Some (Inr m) \<longrightarrow>
        fst ` set m = {dict_get_default d id_key (VStr '''') | d.
                        d \<in> set (py_take top_k documents) \<and> scorable content_key d})
  \<and> (\<forall>s w vault category person limit use_query_expansion inp w' fused.
        the_reranker s = rr
        \<and> fusion_input s w query vault category person use_query_expansion = (Inr inp, w')
        \<and> reciprocal_rank_fusion inp 60 ''file_path'' ''score'' True = Inr fused
      \<longrightarrow> (\<exists>blended.
             position_aware_blend fused (half_scores ''content'' ''file_path'' (take 30 fused))
               ''file_path'' = Inr blended
           \<and> query_search s w query vault category person limit True use_query_expansion
               = Some (Inr (py_take limit blended), w')))"
proof (intro conjI allI impI)
  fix d
  show "score_with_semaphore rr query content_key id_key d
          = (if scorable content_key d then Inr (dict_get_default d id_key (VStr ''''), 1 / 2)
             else Inl TypeError)"
    by (rule score_with_semaphore_down[OF down])
next
  fix m
  assume "rerank rr query documents content_key id_key top_k 5 = Some (Inr m)"
  then have "collect_scores (map (score_with_semaphore rr query content_key id_key)
                               (py_take top_k documents)) [] = Inr m"
    by (simp add: rerank_def Let_def)
  from collect_scores_keys[OF this]
  have "fst ` set m = {v. \<exists>x. Inr (v, x) \<in> set (map (score_with_semaphore rr query content_key id_key)
                               (py_take top_k documents))}"
    by simp
  also have "\<dots> = {dict_get_default d id_key (VStr '''') | d.
                        d \<in> set (py_take top_k documents) \<and> scorable content_key d}"
  proof (intro set_eqI iffI)
    fix v
    assume "v \<in> {v. \<exists>x. Inr (v, x) \<in> set (map (score_with_semaphore rr query content_key id_key)
                               (py_take top_k documents))}"
    then have "\<exists>x d. d \<in> set (py_take top_k documents)
        \<and> score_with_semaphore rr query content_key id_key d = Inr (v, x)"
      by (auto simp: image_iff) metis
    then obtain x d where "d \<in> set (py_take top_k documents)"
      "score_with_semaphore rr query content_key id_key d = Inr (v, x)"
      by blast
    then show "v \<in> {dict_get_default d id_key (VStr '''') | d.
                        d \<in> set (py_take top_k documents) \<and> scorable content_key d}"
      by (auto simp: score_with_semaphore_down[OF down] split: if_splits)
  next
    fix v
    assume "v \<in> {dict_get_default d id_key (VStr '''') | d.
                        d \<in> set (py_take top_k documents) \<and> scorable content_key d}"
    then obtain d where d: "d \<in> set (py_take top_k documents)" "scorable content_key d"
      "v = dict_get_default d id_key (VStr '''')" by blast
    then have "score_with_semaphore rr query content_key id_key d = Inr (v, 1 / 2)"
      by (simp add: score_with_semaphore_down[OF down])
    with d(1) have "Inr (v, 1 / 2) \<in> set (map (score_with_semaphore rr query content_key id_key)
                               (py_take top_k documents))"
      by (metis image_eqI list.set_map)
    then show "v \<in> {v. \<exists>x. Inr (v, x) \<in> set (map (score_with_semaphore rr query content_key id_key)
                               (py_take top_k documents))}"
      by blast
  qed
  finally show "fst ` set m = {dict_get_default d id_key (VStr '''') | d.
                        d \<in> set (py_take top_k documents) \<and> scorable content_key d}" .
next
  fix s w vault category person limit use_query_expansion inp w' fused
  assume a: "the_reranker s = rr
        \<and> fusion_input s w query vault category person use_query_expansion = (Inr inp, w')
        \<and> reciprocal_rank_fusion inp 60 ''file_path'' ''score'' True = Inr fused"
  then have rr: "the_reranker s = rr"
    and inp: "fusion_input s w query vault category person use_query_expansion = (Inr inp, w')"
    and run: "reciprocal_rank_fusion inp 60 ''file_path'' ''score'' True = Inr fused"
    by simp_all
  have k1: "''score'' \<noteq> ''rrf_rank''" and k2: "''file_path'' \<noteq> ''score''"
    and k3: "''file_path'' \<noteq> ''rrf_rank''" by simp_all
  note wf = rrf_output_wf[OF k1 k2 k3 run]
  define g where "g = (\<lambda>d. dict_get_default d ''file_path'' (VStr ''''))"
  define top where "top = take 30 fused"
  have top_sub: "set top \<subseteq> set fused" by (auto simp: top_def dest: in_set_takeD)
  have g_eq: "g d = dict_get d ''file_path''" if "d \<in> set fused" for d
    using wf(2) that by (simp add: g_def truthy_get_default)
  have mg: "map g top = map (\<lambda>d. dict_get d ''file_path'') top"
    using g_eq top_sub by (intro map_cong) auto
  have "distinct (map (\<lambda>d. dict_get d ''file_path'') top)"
    using wf(1) unfolding top_def take_map[symmetric] by (rule distinct_take)
  then have dist: "distinct (map g top)" by (simp only: mg)
  have hash: "\<forall>d \<in> set top. hashable (g d)"
    using wf(2) g_eq top_sub by auto
  have tasks: "map (score_with_semaphore rr query ''content'' ''file_path'') top
               = map (\<lambda>d. if scorable ''content'' d then Inr (g d, 1 / 2) else Inl TypeError) top"
    by (simp add: score_with_semaphore_down[OF down] g_def)
  have "map (\<lambda>d. (g d, 1 / 2 :: rat)) (filter (scorable ''content'') top)
        = half_scores ''content'' ''file_path'' top"
    unfolding half_scores_def using g_eq top_sub by (intro map_cong) auto
  with collect_half[OF hash dist, of "[]" "scorable ''content''"]
  have collected: "collect_scores (map (score_with_semaphore rr query ''content'' ''file_path'') top) []
                   = Inr (half_scores ''content'' ''file_path'' top)"
    by (simp add: tasks)
  have "\<forall>d \<in> set fused. \<forall>i. \<exists>r. blend_one ''file_path''
            (half_scores ''content'' ''file_path'' top) i d = Inr r"
    using wf(2) blend_one_total by blast
  from blend_loop_total[OF this, of 0 "[]"] obtain blended where
    blended: "position_aware_blend fused (half_scores ''content'' ''file_path'' top) ''file_path''
              = Inr blended"
    by (auto simp: position_aware_blend_def)
  have "query_search s w query vault category person limit True use_query_expansion
               = Some (Inr (py_take limit blended), w')"
  proof (cases "fused = []")
    case True
    with blended have "blended = []" by (simp add: position_aware_blend_def)
    with True inp run show ?thesis
      by (simp add: query_search_def rerank_step_def py_take_def)
  next
    case False
    have "rerank rr query (py_take 30 fused) ''content'' ''file_path'' 30 5
          = Some (Inr (half_scores ''content'' ''file_path'' top))"
      using collected by (simp add: rerank_def Let_def top_def)
    with False inp run blended rr show ?thesis
      by (simp add: query_search_def rerank_step_def)
  qed
  with blended show "\<exists>blended.
             position_aware_blend fused (half_scores ''content'' ''file_path'' (take 30 fused))
               ''file_path'' = Inr blended
           \<and> query_search s w query vault category person limit True use_query_expansion
               = Some (Inr (py_take limit blended), w')"
    unfolding top_def by blast
qed
section \<open>Claims about fusion.py\<close>

text \<open>
  C2.  Whenever \<open>reciprocal_rank_fusion\<close> returns, its output holds exactly one record
  for every truthy id borne by an input document (documents without an id are dropped);
  the record at position \<open>i\<close> carries \<open>rrf_rank = i\<close> and, under the score key, the sum
  of \<open>1 / (k + r + 1)\<close> over the ranks \<open>r\<close> at which its id appears, plus, when
  \<open>top_rank_bonus\<close> is set, 0.05 if its best rank is 0 and else 0.02 if its best rank
  is at most 2; and the output is sorted by that score, descending.  The function does
  return when \<open>k\<close> is not negative and no id is a list.
\<close>

theorem rrf_scores_ranks_order:
  assumes keys: "score_key \<noteq> ''rrf_rank''" "id_key \<noteq> score_key" "id_key \<noteq> ''rrf_rank''"
  shows "(0 \<le> k \<and> (\<forall>l \<in> set ls. \<forall>d \<in> set l. hashable (dict_get d id_key))
            \<longrightarrow> (\<exists>out. reciprocal_rank_fusion ls k id_key score_key b = Inr out))
       \<and> (\<forall>out. reciprocal_rank_fusion ls k id_key score_key b = Inr out \<longrightarrow>
             set (map (\<lambda>d. dict_get d id_key) out)
               = {v. truthy v \<and> (\<exists>l \<in> set ls. \<exists>d \<in> set l. dict_get d id_key = v)}
           \<and> distinct (map (\<lambda>d. dict_get d id_key) out)
           \<and> (\<forall>i < length out.
                 dict_get (out ! i) ''rrf_rank'' = VNum (of_nat i)
               \<and> dict_get (out ! i) score_key
                   = VNum (fused_score k b (ranks_of id_key (dict_get (out ! i) id_key) ls)))
           \<and> sorted_wrt (\<lambda>a c. num_field score_key c \<le> num_field score_key a) out)"
proof (intro conjI allI impI)
  assume ok: "0 \<le> k \<and> (\<forall>l \<in> set ls. \<forall>d \<in> set l. hashable (dict_get d id_key))"
  have "\<forall>l \<in> set ls. \<forall>p \<in> set (enumerate 0 l). visit_ok k id_key p"
    using ok by (auto simp: visit_ok_def in_set_enumerate_eq)
  then show "\<exists>out. reciprocal_rank_fusion ls k id_key score_key b = Inr out"
    by (rule rrf_total)
next
  fix out
  assume run: "reciprocal_rank_fusion ls k id_key score_key b = Inr out"
  define h where "h = appearances id_key ls"
  define F where "F = (\<lambda>u. fused_score k b (hranks id_key u h))"
  define ks where "ks = sort_key (\<lambda>u. - F u) (hkeys id_key h)"
  have out: "out = map (\<lambda>p. decorate score_key (hdoc id_key (snd p) h) (F (snd p)) (fst p))
                       (enumerate 0 ks)"
    using rrf_result[OF run] by (simp add: h_def F_def ks_def)
  have set_ks: "set ks = set (seen_ids id_key ls)"
    by (simp add: ks_def h_def hkeys_appearances)
  have dist_ks: "distinct ks"
    by (simp add: ks_def hkeys_def)
  have len: "length out = length ks" by (simp add: out)
  have nth: "out ! i = decorate score_key (hdoc id_key (ks ! i) h) (F (ks ! i)) i"
    if "i < length ks" for i
    using that by (simp add: out nth_enumerate_eq)
  have id_nth: "dict_get (out ! i) id_key = ks ! i" if "i < length ks" for i
  proof -
    have "ks ! i \<in> set (hkeys id_key h)" using that by (metis nth_mem set_sort ks_def)
    then show ?thesis using that keys by (simp add: nth dict_get_decorate hdoc_id)
  qed
  have ids: "map (\<lambda>d. dict_get d id_key) out = ks"
    by (rule nth_equalityI) (simp_all add: len id_nth)
  show "set (map (\<lambda>d. dict_get d id_key) out)
          = {v. truthy v \<and> (\<exists>l \<in> set ls. \<exists>d \<in> set l. dict_get d id_key = v)}"
    unfolding ids set_ks by (rule set_seen_ids)
  show "distinct (map (\<lambda>d. dict_get d id_key) out)"
    unfolding ids by (rule dist_ks)
  show "dict_get (out ! i) ''rrf_rank'' = VNum (of_nat i)" if "i < length out" for i
    using that keys by (simp add: len nth dict_get_decorate)
  show "dict_get (out ! i) score_key
          = VNum (fused_score k b (ranks_of id_key (dict_get (out ! i) id_key) ls))"
    if "i < length out" for i
  proof -
    have i: "i < length ks" using that by (simp add: len)
    have "ks ! i \<in> set (seen_ids id_key ls)" using i set_ks nth_mem by blast
    then have "truthy (ks ! i)" by (simp add: set_seen_ids)
    then have "F (ks ! i) = fused_score k b (ranks_of id_key (ks ! i) ls)"
      by (simp add: F_def h_def hranks_appearances)
    then show ?thesis
      unfolding id_nth[OF i] using i keys by (simp add: nth dict_get_decorate)
  qed
  have "num_field score_key (out ! i) = F (ks ! i)" if "i < length ks" for i
    using that keys by (simp add: nth num_field_def dict_get_decorate)
  then have eq: "map (num_field score_key) out = map F ks"
    by (intro nth_equalityI) (simp_all add: len)
  have "sorted_wrt (\<lambda>a c. F c \<le> F a) ks"
    unfolding ks_def by (rule sorted_desc_sort_key)
  then have "sorted_wrt (\<lambda>x y. y \<le> x) (map F ks)"
    by (simp add: sorted_wrt_map)
  then have "sorted_wrt (\<lambda>x y. y \<le> x) (map (num_field score_key) out)"
    by (simp only: eq)
  then show "sorted_wrt (\<lambda>a c. num_field score_key c \<le> num_field score_key a) out"
    by (simp add: sorted_wrt_map)
qed

theorem rrf_scores_ranks_order_witness:
  "''score'' \<noteq> ''rrf_rank'' \<and> ''file_path'' \<noteq> ''score'' \<and> ''file_path'' \<noteq> ''rrf_rank''
   \<and> reciprocal_rank_fusion
         [[[(''file_path'', VStr ''d1'')], [(''file_path'', VStr ''d2'')], [(''file_path'', VStr ''d3'')]],
          [[(''file_path'', VStr ''d3'')], [(''file_path'', VStr ''d4'')], [(''file_path'', VStr ''d1'')]]]
         60 ''file_path'' ''score'' True
       = Inr [[(''file_path'', VStr ''d1''), (''score'', VNum (6323 / 76860)), (''rrf_rank'', VNum 0)],
              [(''file_path'', VStr ''d3''), (''score'', VNum (6323 / 76860)), (''rrf_rank'', VNum 1)],
              [(''file_path'', VStr ''d2''), (''score'', VNum (28 / 775)), (''rrf_rank'', VNum 2)],
              [(''file_path'', VStr ''d4''), (''score'', VNum (28 / 775)), (''rrf_rank'', VNum 3)]]
   \<and> fused_score 60 True
         (ranks_of ''file_path'' (VStr ''d3'')
           [[[(''file_path'', VStr ''d1'')], [(''file_path'', VStr ''d2'')], [(''file_path'', VStr ''d3'')]],
            [[(''file_path'', VStr ''d3'')], [(''file_path'', VStr ''d4'')], [(''file_path'', VStr ''d1'')]]])
       = 6323 / 76860"
proof -
  let ?ls = "[[[(''file_path'', VStr ''d1'')], [(''file_path'', VStr ''d2'')], [(''file_path'', VStr ''d3'')]],
          [[(''file_path'', VStr ''d3'')], [(''file_path'', VStr ''d4'')], [(''file_path'', VStr ''d1'')]]]"
  let ?out = "[[(''file_path'', VStr ''d1''), (''score'', VNum (6323 / 76860)), (''rrf_rank'', VNum 0)],
              [(''file_path'', VStr ''d3''), (''score'', VNum (6323 / 76860)), (''rrf_rank'', VNum 1)],
              [(''file_path'', VStr ''d2''), (''score'', VNum (28 / 775)), (''rrf_rank'', VNum 2)],
              [(''file_path'', VStr ''d4''), (''score'', VNum (28 / 775)), (''rrf_rank'', VNum 3)]]"
  have k1: "''score'' \<noteq> ''rrf_rank''" and k2: "''file_path'' \<noteq> ''score''"
    and k3: "''file_path'' \<noteq> ''rrf_rank''" by simp_all
  have run: "reciprocal_rank_fusion ?ls 60 ''file_path'' ''score'' True = Inr ?out"
    by code_simp
  from rrf_scores_ranks_order[OF k1 k2 k3, of 60 ?ls True] run
  have all: "\<forall>i < length ?out. dict_get (?out ! i) ''score''
          = VNum (fused_score 60 True (ranks_of ''file_path'' (dict_get (?out ! i) ''file_path'') ?ls))"
    by blast
  have "dict_get (?out ! 1) ''score''
          = VNum (fused_score 60 True (ranks_of ''file_path'' (dict_get (?out ! 1) ''file_path'') ?ls))"
    by (rule all[rule_format]) simp
  then have "fused_score 60 True (ranks_of ''file_path'' (VStr ''d3'') ?ls) = 6323 / 76860"
    by (simp add: dict_get_def)
  with k1 k2 k3 run show ?thesis by blast
qed

text \<open>
  C6.  Whenever \<open>position_aware_blend\<close> returns, its output has the length of its
  input and is sorted by blended score, descending; it is a rearrangement of the list
  \<open>pre\<close> built by the loop, in which the record made from the input at position \<open>i\<close>
  has the blended score \<open>0.75 * rrf + 0.25 * rerank\<close> for \<open>i < 3\<close>,
  \<open>0.60 * rrf + 0.40 * rerank\<close> for \<open>3 \<le> i < 10\<close> and \<open>0.40 * rrf + 0.60 * rerank\<close>
  from 10 on, a missing rerank score counting as 0, keeps both inputs of the blend under
  \<open>rrf_score\<close> and \<open>rerank_score\<close>, and agrees with the input on every other key.  The
  function does return when no id is a list and every score is a number or absent.
\<close>

theorem position_aware_blend_spec:
  "((\<forall>d \<in> set rrf_results. hashable (dict_get d id_key)
        \<and> (map_of d ''score'' = None \<or> (\<exists>x. map_of d ''score'' = Some (VNum x))))
      \<longrightarrow> (\<exists>out. position_aware_blend rrf_results rerank_scores id_key = Inr out))
   \<and> (\<forall>out. position_aware_blend rrf_results rerank_scores id_key = Inr out \<longrightarrow>
         length out = length rrf_results
       \<and> sorted_wrt (\<lambda>a c. score_value c \<le> score_value a) out
       \<and> (\<exists>pre. mset out = mset pre \<and> length pre = length rrf_results
             \<and> (\<forall>i < length rrf_results.
                   dict_get (pre ! i) ''score''
                     = VNum (let r = num_field ''score'' (rrf_results ! i);
                                 q = rerank_or_zero rerank_scores (dict_get (rrf_results ! i) id_key)
                             in if i < 3 then 75 / 100 * r + 25 / 100 * q
                                else if i < 10 then 60 / 100 * r + 40 / 100 * q
                                else 40 / 100 * r + 60 / 100 * q)
                 \<and> dict_get (pre ! i) ''rrf_score'' = VNum (num_field ''score'' (rrf_results ! i))
                 \<and> dict_get (pre ! i) ''rerank_score''
                     = VNum (rerank_or_zero rerank_scores (dict_get (rrf_results ! i) id_key))
                 \<and> (\<forall>key. key \<notin> {''score'', ''rrf_score'', ''rerank_score''}
                       \<longrightarrow> dict_get (pre ! i) key = dict_get (rrf_results ! i) key))))"
proof (intro conjI allI impI)
  assume "\<forall>d \<in> set rrf_results. hashable (dict_get d id_key)
        \<and> (map_of d ''score'' = None \<or> (\<exists>x. map_of d ''score'' = Some (VNum x)))"
  then have "\<forall>d \<in> set rrf_results. \<forall>i. \<exists>r. blend_one id_key rerank_scores i d = Inr r"
    using blend_one_total by blast
  from blend_loop_total[OF this, of 0 "[]"]
  show "\<exists>out. position_aware_blend rrf_results rerank_scores id_key = Inr out"
    by (auto simp: position_aware_blend_def)
next
  fix out
  assume run: "position_aware_blend rrf_results rerank_scores id_key = Inr out"
  then obtain res where
    loop: "blend_loop id_key rerank_scores 0 rrf_results [] = Inr res" and
    out: "out = sort_key (\<lambda>x. - score_value x) res"
    by (auto simp: position_aware_blend_def split: sum.splits)
  from blend_loop_result[OF loop] have
    len: "length res = length rrf_results" and
    each: "\<forall>j < length rrf_results. blend_one id_key rerank_scores j (rrf_results ! j) = Inr (res ! j)"
    by auto
  show "length out = length rrf_results"
    by (simp add: out len)
  show "sorted_wrt (\<lambda>a c. score_value c \<le> score_value a) out"
    unfolding out by (rule sorted_desc_sort_key)
  show "\<exists>pre. mset out = mset pre \<and> length pre = length rrf_results
             \<and> (\<forall>i < length rrf_results.
                   dict_get (pre ! i) ''score''
                     = VNum (let r = num_field ''score'' (rrf_results ! i);
                                 q = rerank_or_zero rerank_scores (dict_get (rrf_results ! i) id_key)
                             in if i < 3 then 75 / 100 * r + 25 / 100 * q
                                else if i < 10 then 60 / 100 * r + 40 / 100 * q
                                else 40 / 100 * r + 60 / 100 * q)
                 \<and> dict_get (pre ! i) ''rrf_score'' = VNum (num_field ''score'' (rrf_results ! i))
                 \<and> dict_get (pre ! i) ''rerank_score''
                     = VNum (rerank_or_zero rerank_scores (dict_get (rrf_results ! i) id_key))
                 \<and> (\<forall>key. key \<notin> {''score'', ''rrf_score'', ''rerank_score''}
                       \<longrightarrow> dict_get (pre ! i) key = dict_get (rrf_results ! i) key))"
  proof (intro exI[of _ res] conjI allI impI)
    show "mset out = mset res" by (simp add: out)
    show "length res = length rrf_results" by (rule len)
  next
    fix i assume i: "i < length rrf_results"
    with each have b: "blend_one id_key rerank_scores i (rrf_results ! i) = Inr (res ! i)" by simp
    show "dict_get (res ! i) ''score''
            = VNum (let r = num_field ''score'' (rrf_results ! i);
                        q = rerank_or_zero rerank_scores (dict_get (rrf_results ! i) id_key)
                    in if i < 3 then 75 / 100 * r + 25 / 100 * q
                       else if i < 10 then 60 / 100 * r + 40 / 100 * q
                       else 40 / 100 * r + 60 / 100 * q)"
      unfolding Let_def blend_one_fields(1)[OF b] blend_weights ..
    show "dict_get (res ! i) ''rrf_score'' = VNum (num_field ''score'' (rrf_results ! i))"
      by (rule blend_one_fields(2)[OF b])
    show "dict_get (res ! i) ''rerank_score''
            = VNum (rerank_or_zero rerank_scores (dict_get (rrf_results ! i) id_key))"
      by (rule blend_one_fields(3)[OF b])
    fix key assume "key \<notin> {''score'', ''rrf_score'', ''rerank_score''}"
    then show "dict_get (res ! i) key = dict_get (rrf_results ! i) key"
      by (rule blend_one_fields(4)[OF b])
  qed
qed

theorem position_aware_blend_spec_witness:
  "hashable (dict_get [(''file_path'', VStr ''a.md''), (''score'', VNum (1 / 2))] ''file_path'')
   \<and> hashable (dict_get [(''file_path'', VStr ''b.md''), (''score'', VNum (1 / 4))] ''file_path'')
   \<and> position_aware_blend
         [[(''file_path'', VStr ''a.md''), (''score'', VNum (1 / 2))],
          [(''file_path'', VStr ''b.md''), (''score'', VNum (1 / 4))]]
         [(VStr ''b.md'', 1)] ''file_path''
       = Inr [[(''file_path'', VStr ''b.md''), (''score'', VNum (7 / 16)),
               (''rrf_score'', VNum (1 / 4)), (''rerank_score'', VNum 1)],
              [(''file_path'', VStr ''a.md''), (''score'', VNum (3 / 8)),
               (''rrf_score'', VNum (1 / 2)), (''rerank_score'', VNum 0)]]
   \<and> length [[(''file_path'', VStr ''b.md''), (''score'', VNum (7 / 16)),
               (''rrf_score'', VNum (1 / 4)), (''rerank_score'', VNum 1)],
              [(''file_path'', VStr ''a.md''), (''score'', VNum (3 / 8)),
               (''rrf_score'', VNum (1 / 2)), (''rerank_score'', VNum 0)]]
       = length [[(''file_path'', VStr ''a.md''), (''score'', VNum (1 / 2))],
                 [(''file_path'', VStr ''b.md''), (''score'', VNum (1 / 4))]]"
proof -
  let ?in = "[[(''file_path'', VStr ''a.md''), (''score'', VNum (1 / 2))],
              [(''file_path'', VStr ''b.md''), (''score'', VNum (1 / 4))]]"
  let ?out = "[[(''file_path'', VStr ''b.md''), (''score'', VNum (7 / 16)),
                (''rrf_score'', VNum (1 / 4)), (''rerank_score'', VNum 1)],
               [(''file_path'', VStr ''a.md''), (''score'', VNum (3 / 8)),
                (''rrf_score'', VNum (1 / 2)), (''rerank_score'', VNum 0)]]"
  have h1: "hashable (dict_get [(''file_path'', VStr ''a.md''), (''score'', VNum (1 / 2))] ''file_path'')"
    and h2: "hashable (dict_get [(''file_path'', VStr ''b.md''), (''score'', VNum (1 / 4))] ''file_path'')"
    by (simp_all add: dict_get_def)
  have run: "position_aware_blend ?in [(VStr ''b.md'', 1)] ''file_path'' = Inr ?out"
    by code_simp
  from position_aware_blend_spec[of ?in "''file_path''" "[(VStr ''b.md'', 1)]"] run
  have "length ?out = length ?in" by blast
  with h1 h2 run show ?thesis by blast
qed

text \<open>
  C7, as the specification states it, fails: a single input list whose documents all
  bear ids need not come back in its order.  Three chunks of \<open>b.md\<close> behind one chunk
  of \<open>a.md\<close> add up to a higher fused score than \<open>a.md\<close> has, so \<open>b.md\<close> is
  returned first.
\<close>

theorem rrf_single_list_duplicates_counterexample:
  "reciprocal_rank_fusion
     [[[(''file_path'', VStr ''a.md''), (''content'', VStr ''a0'')],
       [(''file_path'', VStr ''b.md''), (''content'', VStr ''b0'')],
       [(''file_path'', VStr ''b.md''), (''content'', VStr ''b1'')],
       [(''file_path'', VStr ''b.md''), (''content'', VStr ''b2'')]]]
     60 ''file_path'' ''score'' True
   = Inr [[(''file_path'', VStr ''b.md''), (''content'', VStr ''b0''),
           (''score'', VNum (211321 / 3124800)), (''rrf_rank'', VNum 0)],
          [(''file_path'', VStr ''a.md''), (''content'', VStr ''a0''),
           (''score'', VNum (81 / 1220)), (''rrf_rank'', VNum 1)]]"
  by code_simp

text \<open>
  C7, amended.  For a single input list \<open>L\<close> whose documents bear pairwise distinct ids
  (truthy, and no list), \<open>reciprocal_rank_fusion [L]\<close> with \<open>k = 60\<close> and the top-rank
  bonus returns the documents of \<open>L\<close> in the order of \<open>L\<close>, the one at position \<open>i\<close>
  with score \<open>1 / (61 + i)\<close> plus its bonus and with \<open>rrf_rank = i\<close>.  In general,
  whenever the function returns, the output holds every observed id once, and the
  output records that bear one and the same score \<open>s\<close> (the score the function wrote
  into them) stand in the order in which their ids were first observed.  The tie is
  between the scores of the output itself, not between the sums of the formula: the
  model adds exact rationals where the code adds doubles, and two sums that are equal
  as rationals can differ as doubles in the last bit, so only the statement on the
  output's own scores carries over to the code.
\<close>

theorem rrf_single_list_and_ties:
  assumes keys: "score_key \<noteq> ''rrf_rank''" "id_key \<noteq> score_key" "id_key \<noteq> ''rrf_rank''"
  shows "(distinct (map (\<lambda>d. dict_get d id_key) L)
            \<and> (\<forall>d \<in> set L. truthy (dict_get d id_key) \<and> hashable (dict_get d id_key))
          \<longrightarrow> (\<exists>out. reciprocal_rank_fusion [L] 60 id_key score_key True = Inr out
                 \<and> map (\<lambda>d. dict_get d id_key) out = map (\<lambda>d. dict_get d id_key) L
                 \<and> out = map (\<lambda>p. decorate score_key (snd p)
                                     (1 / of_nat (61 + fst p) + rank_bonus (fst p)) (fst p))
                              (enumerate 0 L)))
       \<and> (\<forall>out s. reciprocal_rank_fusion ls k id_key score_key b = Inr out \<longrightarrow>
             mset (map (\<lambda>d. dict_get d id_key) out) = mset (seen_ids id_key ls)
           \<and> map (\<lambda>d. dict_get d id_key) (filter (\<lambda>d. num_field score_key d = s) out)
               = filter (\<lambda>v. v \<in> set (map (\<lambda>d. dict_get d id_key)
                                           (filter (\<lambda>d. num_field score_key d = s) out)))
                        (seen_ids id_key ls))"
proof (intro conjI allI impI)
  assume a: "distinct (map (\<lambda>d. dict_get d id_key) L)
            \<and> (\<forall>d \<in> set L. truthy (dict_get d id_key) \<and> hashable (dict_get d id_key))"
  define out where
    "out = map (\<lambda>p. decorate score_key (snd p) (1 / of_nat (61 + fst p) + rank_bonus (fst p)) (fst p))
               (enumerate 0 L)"
  have run: "reciprocal_rank_fusion [L] 60 id_key score_key True = Inr out"
    unfolding out_def using keys(1) a by (intro rrf_single_list) simp_all
  have "map (\<lambda>d. dict_get d id_key) out = map (\<lambda>d. dict_get d id_key) L"
    using keys by (intro nth_equalityI) (simp_all add: out_def nth_enumerate_eq dict_get_decorate)
  with run show "\<exists>out. reciprocal_rank_fusion [L] 60 id_key score_key True = Inr out
                 \<and> map (\<lambda>d. dict_get d id_key) out = map (\<lambda>d. dict_get d id_key) L
                 \<and> out = map (\<lambda>p. decorate score_key (snd p)
                                     (1 / of_nat (61 + fst p) + rank_bonus (fst p)) (fst p))
                              (enumerate 0 L)"
    unfolding out_def by blast
next
  fix out s
  assume "reciprocal_rank_fusion ls k id_key score_key b = Inr out"
  with keys show "mset (map (\<lambda>d. dict_get d id_key) out) = mset (seen_ids id_key ls)"
    by (rule rrf_ids)
next
  fix out s
  assume "reciprocal_rank_fusion ls k id_key score_key b = Inr out"
  with keys show "map (\<lambda>d. dict_get d id_key) (filter (\<lambda>d. num_field score_key d = s) out)
               = filter (\<lambda>v. v \<in> set (map (\<lambda>d. dict_get d id_key)
                                           (filter (\<lambda>d. num_field score_key d = s) out)))
                        (seen_ids id_key ls)"
    by (rule rrf_ties_output)
qed

theorem rrf_single_list_and_ties_witness:
  "''score'' \<noteq> ''rrf_rank'' \<and> ''file_path'' \<noteq> ''score'' \<and> ''file_path'' \<noteq> ''rrf_rank''
   \<and> distinct (map (\<lambda>d. dict_get d ''file_path'')
        [[(''file_path'', VStr ''a.md'')], [(''file_path'', VStr ''b.md'')]])
   \<and> truthy (VStr ''a.md'') \<and> hashable (VStr ''a.md'')
   \<and> truthy (VStr ''b.md'') \<and> hashable (VStr ''b.md'')
   \<and> reciprocal_rank_fusion [[[(''file_path'', VStr ''a.md'')], [(''file_path'', VStr ''b.md'')]]]
        60 ''file_path'' ''score'' True
      = Inr [[(''file_path'', VStr ''a.md''), (''score'', VNum (81 / 1220)), (''rrf_rank'', VNum 0)],
             [(''file_path'', VStr ''b.md''), (''score'', VNum (28 / 775)), (''rrf_rank'', VNum 1)]]
   \<and> reciprocal_rank_fusion
        [[[(''file_path'', VStr ''n.md'')], [(''file_path'', VStr ''m.md'')]],
         [[(''file_path'', VStr ''m.md'')], [(''file_path'', VStr ''n.md'')]]]
        60 ''file_path'' ''score'' True
      = Inr [[(''file_path'', VStr ''n.md''), (''score'', VNum (3121 / 37820)), (''rrf_rank'', VNum 0)],
             [(''file_path'', VStr ''m.md''), (''score'', VNum (3121 / 37820)), (''rrf_rank'', VNum 1)]]
   \<and> filter (\<lambda>v. v \<in> {VStr ''n.md'', VStr ''m.md''})
        (seen_ids ''file_path''
           [[[(''file_path'', VStr ''n.md'')], [(''file_path'', VStr ''m.md'')]],
            [[(''file_path'', VStr ''m.md'')], [(''file_path'', VStr ''n.md'')]]])
      = [VStr ''n.md'', VStr ''m.md'']"
proof -
  let ?L = "[[(''file_path'', VStr ''a.md'')], [(''file_path'', VStr ''b.md'')]]"
  let ?ls = "[[[(''file_path'', VStr ''n.md'')], [(''file_path'', VStr ''m.md'')]],
              [[(''file_path'', VStr ''m.md'')], [(''file_path'', VStr ''n.md'')]]]"
  let ?tied = "[[(''file_path'', VStr ''n.md''), (''score'', VNum (3121 / 37820)), (''rrf_rank'', VNum 0)],
               [(''file_path'', VStr ''m.md''), (''score'', VNum (3121 / 37820)), (''rrf_rank'', VNum 1)]]"
  have k1: "''score'' \<noteq> ''rrf_rank''" and k2: "''file_path'' \<noteq> ''score''"
    and k3: "''file_path'' \<noteq> ''rrf_rank''" by simp_all
  have d: "distinct (map (\<lambda>d. dict_get d ''file_path'') ?L)"
    by (simp add: dict_get_def)
  have t: "\<forall>d \<in> set ?L. truthy (dict_get d ''file_path'') \<and> hashable (dict_get d ''file_path'')"
    by (simp add: dict_get_def)
  have tie: "reciprocal_rank_fusion ?ls 60 ''file_path'' ''score'' True = Inr ?tied"
    by code_simp
  note both = rrf_single_list_and_ties[OF k1 k2 k3, where L = ?L and ls = ?ls and k = 60 and b = True]
  from both d t
  have "\<exists>out. reciprocal_rank_fusion [?L] 60 ''file_path'' ''score'' True = Inr out
          \<and> out = map (\<lambda>p. decorate ''score'' (snd p)
                               (1 / of_nat (61 + fst p) + rank_bonus (fst p)) (fst p))
                       (enumerate 0 ?L)"
    by blast
  then have single: "reciprocal_rank_fusion [?L] 60 ''file_path'' ''score'' True
      = Inr [[(''file_path'', VStr ''a.md''), (''score'', VNum (81 / 1220)), (''rrf_rank'', VNum 0)],
             [(''file_path'', VStr ''b.md''), (''score'', VNum (28 / 775)), (''rrf_rank'', VNum 1)]]"
    by (auto simp: decorate_def rank_bonus_def)
  from both tie
  have "map (\<lambda>d. dict_get d ''file_path'')
          (filter (\<lambda>d. num_field ''score'' d = 3121 / 37820) ?tied)
        = filter (\<lambda>v. v \<in> set (map (\<lambda>d. dict_get d ''file_path'')
                                    (filter (\<lambda>d. num_field ''score'' d = 3121 / 37820) ?tied)))
                 (seen_ids ''file_path'' ?ls)"
    by blast
  then have order: "filter (\<lambda>v. v \<in> {VStr ''n.md'', VStr ''m.md''}) (seen_ids ''file_path'' ?ls)
                    = [VStr ''n.md'', VStr ''m.md'']"
    by (simp add: num_field_def dict_get_def)
  from k1 k2 k3 d single tie order show ?thesis by simp
qed
section \<open>Claims about searcher.py and reranker.py\<close>

text \<open>
  C3.  The specification says that \<open>vector_search\<close> returns an empty list when the
  embedding call fails and that \<open>hybrid_search\<close> then still returns the BM25 results.
  The code awaits \<open>get_embedding\<close> outside its \<open>try\<close>: with the embedding backend
  unreachable, \<open>vector_search\<close> raises, and so does \<open>hybrid_search\<close>, although the
  BM25 search of the same query has two results.
\<close>

theorem vector_search_embedding_failure_raises:
  "vector_search down_searcher ex_world ''migration'' ''all'' None None 30
     = (Inl (HTTPError ''connection refused''),
        \<lparr>embed_calls = [''migration''], tables = [], fts_rows = []\<rparr>)
   \<and> bm25_search down_searcher ''migration'' ''all'' None 30
     = Inr [[(''file_path'', VStr ''a.md''), (''snippet'', VStr ''plan'')],
            [(''file_path'', VStr ''b.md''), (''snippet'', VStr ''notes'')]]
   \<and> hybrid_search down_searcher ex_world ''migration'' ''all'' None None 10
     = (Inl (HTTPError ''connection refused''),
        \<lparr>embed_calls = [''migration''], tables = [], fts_rows = []\<rparr>)"
  by code_simp

text \<open>
  C4.  The specification says that a document whose scoring call fails is left out of
  the score map, and that with the rerank backend failing for every document
  \<open>query_search\<close> with reranking returns the fused, non-reranked top \<open>limit\<close>.  The loop
  of \<open>rerank\<close> does skip a task that raised, but a failing backend call never reaches
  it: \<open>_generate\<close> catches the failure and returns the empty string, which
  \<open>score_document\<close> reads as the ambiguous answer 0.5.  With the small LLM failing
  every request, \<open>rerank\<close> returns a map that holds every document with 0.5, and
  \<open>query_search\<close> returns the blend with those scores: the fused order
  \<open>a.md, b.md, c.md, d.md\<close> comes back as \<open>d.md, a.md, b.md, c.md\<close>, because the
  positions from 3 on weigh the constant 0.5 higher than the first three do.
  \<open>expand_query\<close>, on the same failure, falls back to the original query alone.
\<close>

theorem rerank_backend_failure_reorders:
  "rerank dead_reranker ''plan'' four_hits ''content'' ''file_path'' 30 5
     = Some (Inr [(VStr ''a.md'', 1 / 2), (VStr ''b.md'', 1 / 2),
                  (VStr ''c.md'', 1 / 2), (VStr ''d.md'', 1 / 2)])
   \<and> query_search dead_rerank_searcher ex_world ''plan'' ''all'' None None 10 False False
     = Some (Inr [[(''file_path'', VStr ''a.md''), (''snippet'', VStr ''alpha''),
                   (''score'', VNum (81 / 1220)), (''rrf_rank'', VNum 0)],
                  [(''file_path'', VStr ''b.md''), (''snippet'', VStr ''beta''),
                   (''score'', VNum (28 / 775)), (''rrf_rank'', VNum 1)],
                  [(''file_path'', VStr ''c.md''), (''snippet'', VStr ''gamma''),
                   (''score'', VNum (113 / 3150)), (''rrf_rank'', VNum 2)],
                  [(''file_path'', VStr ''d.md''), (''snippet'', VStr ''delta''),
                   (''score'', VNum (1 / 64)), (''rrf_rank'', VNum 3)]],
             \<lparr>embed_calls = [''plan''], tables = [], fts_rows = []\<rparr>)
   \<and> query_search dead_rerank_searcher ex_world ''plan'' ''all'' None None 10 True False
     = Some (Inr [[(''file_path'', VStr ''d.md''), (''snippet'', VStr ''delta''),
                   (''score'', VNum (67 / 320)), (''rrf_rank'', VNum 3),
                   (''rrf_score'', VNum (1 / 64)), (''rerank_score'', VNum (1 / 2))],
                  [(''file_path'', VStr ''a.md''), (''snippet'', VStr ''alpha''),
                   (''score'', VNum (853 / 4880)), (''rrf_rank'', VNum 0),
                   (''rrf_score'', VNum (81 / 1220)), (''rerank_score'', VNum (1 / 2))],
                  [(''file_path'', VStr ''b.md''), (''snippet'', VStr ''beta''),
                   (''score'', VNum (943 / 6200)), (''rrf_rank'', VNum 1),
                   (''rrf_score'', VNum (28 / 775)), (''rerank_score'', VNum (1 / 2))],
                  [(''file_path'', VStr ''c.md''), (''snippet'', VStr ''gamma''),
                   (''score'', VNum (319 / 2100)), (''rrf_rank'', VNum 2),
                   (''rrf_score'', VNum (113 / 3150)), (''rerank_score'', VNum (1 / 2))]],
             \<lparr>embed_calls = [''plan''], tables = [], fts_rows = []\<rparr>)
   \<and> expand_query dead_reranker ''plan'' = [''plan'']"
  by code_simp

text \<open>
  C5.  Whenever the hybrid searches of \<open>query_search\<close> succeed, the first of them is
  the one for the original query; with more than one query (\<open>rest\<close> not empty) its
  result list \<open>h0\<close> stands twice at the head of the lists handed to the fusion, with a
  single query once; so the original list contributes twice to the reciprocal-rank sum
  of every id in the first case and once in the second; and these lists are what
  \<open>reciprocal_rank_fusion\<close> is run on, with reranking and without: the result of
  \<open>query_search\<close> is that of the fusion of these lists, handed to the reranking step
  (which leaves it as it is without reranking) and cut to \<open>limit\<close>.  Without query
  expansion there is a single query.
\<close>

theorem query_search_original_weighted_twice:
  assumes "fusion_input s w query vault category person use_query_expansion = (Inr inp, w')"
  shows "\<exists>h0 w0 rest.
           hybrid_search s w query vault category person 30 = (Inr h0, w0)
         \<and> hybrid_all s w0
              (tl (if use_query_expansion then expand_query (the_reranker s) query else [query]))
              vault category person = (Inr rest, w')
         \<and> length rest + 1
              = length (if use_query_expansion then expand_query (the_reranker s) query else [query])
         \<and> inp = (if rest \<noteq> [] then h0 # h0 # rest else [h0])
         \<and> (\<forall>k v. rrf_sum k (ranks_of ''file_path'' v inp)
                    = (if rest \<noteq> [] then 2 * rrf_sum k (ranks_of ''file_path'' v [h0])
                       else rrf_sum k (ranks_of ''file_path'' v [h0]))
                      + rrf_sum k (ranks_of ''file_path'' v rest))
         \<and> query_search s w query vault category person limit use_reranking use_query_expansion
             = (case reciprocal_rank_fusion inp 60 ''file_path'' ''score'' True of
                  Inl e \<Rightarrow> Some (Inl e, w')
                | Inr fused \<Rightarrow>
                    (case rerank_step s query use_reranking fused of
                       None \<Rightarrow> None
                     | Some (Inl e) \<Rightarrow> Some (Inl e, w')
                     | Some (Inr fused') \<Rightarrow> Some (Inr (py_take limit fused'), w')))
         \<and> query_search s w query vault category person limit False use_query_expansion
             = Some (case reciprocal_rank_fusion inp 60 ''file_path'' ''score'' True of
                       Inl e \<Rightarrow> (Inl e, w')
                     | Inr fused \<Rightarrow> (Inr (py_take limit fused), w'))"
proof -
  define queries where
    "queries = (if use_query_expansion then expand_query (the_reranker s) query else [query])"
  have "\<exists>alts. queries = query # alts"
    using expand_query_head[of "the_reranker s" query] by (simp add: queries_def)
  then obtain alts where q: "queries = query # alts" by blast
  from assms obtain rs where
    all: "hybrid_all s w queries vault category person = (Inr rs, w')" and
    inp: "inp = weight_original rs"
    by (auto simp: fusion_input_def Let_def queries_def split: prod.splits sum.splits)
  from hybrid_all_Cons[OF all[unfolded q]] obtain h0 w0 rest where
    h0: "hybrid_search s w query vault category person 30 = (Inr h0, w0)" and
    rest: "hybrid_all s w0 alts vault category person = (Inr rest, w')" and
    rs: "rs = h0 # rest"
    by blast
  have len: "length rest = length alts" using hybrid_all_length[OF rest] .
  have inp': "inp = (if rest \<noteq> [] then h0 # h0 # rest else [h0])"
    by (cases rest) (simp_all add: inp rs weight_original_def)
  have sums: "rrf_sum k (ranks_of ''file_path'' v inp)
                = (if rest \<noteq> [] then 2 * rrf_sum k (ranks_of ''file_path'' v [h0])
                   else rrf_sum k (ranks_of ''file_path'' v [h0]))
                  + rrf_sum k (ranks_of ''file_path'' v rest)" for k v
  proof (cases "rest = []")
    case True
    then show ?thesis by (simp add: inp' ranks_of_def rrf_sum_def)
  next
    case False
    have "ranks_of ''file_path'' v (h0 # h0 # rest)
          = ranks_of ''file_path'' v [h0] @ ranks_of ''file_path'' v [h0] @ ranks_of ''file_path'' v rest"
      by (simp add: ranks_of_def)
    with False show ?thesis by (simp add: inp' rrf_sum_append)
  qed
  have qs: "query_search s w query vault category person limit False use_query_expansion
             = Some (case reciprocal_rank_fusion inp 60 ''file_path'' ''score'' True of
                       Inl e \<Rightarrow> (Inl e, w')
                     | Inr fused \<Rightarrow> (Inr (py_take limit fused), w'))"
    using assms by (simp add: query_search_def rerank_step_def split: sum.splits)
  have qr: "query_search s w query vault category person limit use_reranking use_query_expansion
             = (case reciprocal_rank_fusion inp 60 ''file_path'' ''score'' True of
                  Inl e \<Rightarrow> Some (Inl e, w')
                | Inr fused \<Rightarrow>
                    (case rerank_step s query use_reranking fused of
                       None \<Rightarrow> None
                     | Some (Inl e) \<Rightarrow> Some (Inl e, w')
                     | Some (Inr fused') \<Rightarrow> Some (Inr (py_take limit fused'), w')))"
    using assms by (simp add: query_search_def)
  show ?thesis
    using h0 rest len inp' sums qs qr unfolding queries_def[symmetric] q
    by (intro exI[of _ h0] exI[of _ w0] exI[of _ rest]) simp
qed

theorem query_search_original_weighted_twice_witness:
  "fusion_input ex_searcher ex_world ''migration'' ''all'' None None True
     = (Inr [[[(''file_path'', VStr ''a.md''), (''snippet'', VStr ''plan''),
               (''score'', VNum 1), (''rrf_rank'', VNum 0)],
              [(''file_path'', VStr ''b.md''), (''snippet'', VStr ''notes''),
               (''score'', VNum 0), (''rrf_rank'', VNum 1)]],
             [[(''file_path'', VStr ''a.md''), (''snippet'', VStr ''plan''),
               (''score'', VNum 1), (''rrf_rank'', VNum 0)],
              [(''file_path'', VStr ''b.md''), (''snippet'', VStr ''notes''),
               (''score'', VNum 0), (''rrf_rank'', VNum 1)]],
             [[(''file_path'', VStr ''b.md''), (''snippet'', VStr ''notes''),
               (''score'', VNum 1), (''rrf_rank'', VNum 0)]]],
        \<lparr>embed_calls = [''migration'', ''database move''], tables = [], fts_rows = []\<rparr>)
   \<and> fst (hybrid_search ex_searcher ex_world ''migration'' ''all'' None None 30)
     = Inr [[(''file_path'', VStr ''a.md''), (''snippet'', VStr ''plan''),
             (''score'', VNum 1), (''rrf_rank'', VNum 0)],
            [(''file_path'', VStr ''b.md''), (''snippet'', VStr ''notes''),
             (''score'', VNum 0), (''rrf_rank'', VNum 1)]]
   \<and> query_search ex_searcher ex_world ''migration'' ''all'' None None 10 True True
     = Some (Inr [[(''file_path'', VStr ''b.md''), (''snippet'', VStr ''notes''),
                   (''score'', VNum (30103 / 151280)), (''rrf_rank'', VNum 0),
                   (''rrf_score'', VNum (3731 / 37820)), (''rerank_score'', VNum (1 / 2))],
                  [(''file_path'', VStr ''a.md''), (''snippet'', VStr ''plan''),
                   (''score'', VNum (913 / 4880)), (''rrf_rank'', VNum 1),
                   (''rrf_score'', VNum (101 / 1220)), (''rerank_score'', VNum (1 / 2))]],
             \<lparr>embed_calls = [''migration'', ''database move''], tables = [], fts_rows = []\<rparr>)"
proof -
  let ?A = "[[(''file_path'', VStr ''a.md''), (''snippet'', VStr ''plan''),
               (''score'', VNum 1), (''rrf_rank'', VNum 0)],
              [(''file_path'', VStr ''b.md''), (''snippet'', VStr ''notes''),
               (''score'', VNum 0), (''rrf_rank'', VNum 1)]]"
  let ?B = "[[(''file_path'', VStr ''b.md''), (''snippet'', VStr ''notes''),
               (''score'', VNum 1), (''rrf_rank'', VNum 0)]]"
  let ?w = "\<lparr>embed_calls = [''migration'', ''database move''], tables = [], fts_rows = []\<rparr>"
  let ?fused = "[[(''file_path'', VStr ''b.md''), (''snippet'', VStr ''notes''),
                  (''score'', VNum (3731 / 37820)), (''rrf_rank'', VNum 0)],
                 [(''file_path'', VStr ''a.md''), (''snippet'', VStr ''plan''),
                  (''score'', VNum (101 / 1220)), (''rrf_rank'', VNum 1)]]"
  let ?blended = "[[(''file_path'', VStr ''b.md''), (''snippet'', VStr ''notes''),
                   (''score'', VNum (30103 / 151280)), (''rrf_rank'', VNum 0),
                   (''rrf_score'', VNum (3731 / 37820)), (''rerank_score'', VNum (1 / 2))],
                  [(''file_path'', VStr ''a.md''), (''snippet'', VStr ''plan''),
                   (''score'', VNum (913 / 4880)), (''rrf_rank'', VNum 1),
                   (''rrf_score'', VNum (101 / 1220)), (''rerank_score'', VNum (1 / 2))]]"
  have run: "fusion_input ex_searcher ex_world ''migration'' ''all'' None None True
               = (Inr [?A, ?A, ?B], ?w)"
    by code_simp
  have fuse: "reciprocal_rank_fusion [?A, ?A, ?B] 60 ''file_path'' ''score'' True = Inr ?fused"
    by code_simp
  have step: "rerank_step ex_searcher ''migration'' True ?fused = Some (Inr ?blended)"
    by code_simp
  have cut: "py_take 10 ?blended = ?blended"
    by code_simp
  from query_search_original_weighted_twice[OF run, of 10 True] obtain h0 w0 rest where
    h: "hybrid_search ex_searcher ex_world ''migration'' ''all'' None None 30 = (Inr h0, w0)" and
    i: "[?A, ?A, ?B] = (if rest \<noteq> [] then h0 # h0 # rest else [h0])" and
    r: "query_search ex_searcher ex_world ''migration'' ''all'' None None 10 True True
             = (case reciprocal_rank_fusion [?A, ?A, ?B] 60 ''file_path'' ''score'' True of
                  Inl e \<Rightarrow> Some (Inl e, ?w)
                | Inr fused \<Rightarrow>
                    (case rerank_step ex_searcher ''migration'' True fused of
                       None \<Rightarrow> None
                     | Some (Inl e) \<Rightarrow> Some (Inl e, ?w)
                     | Some (Inr fused') \<Rightarrow> Some (Inr (py_take 10 fused'), ?w)))"
    by blast
  from i have "h0 = ?A" by (cases "rest = []") simp_all
  with h have first: "fst (hybrid_search ex_searcher ex_world ''migration'' ''all'' None None 30) = Inr ?A"
    by simp
  have "query_search ex_searcher ex_world ''migration'' ''all'' None None 10 True True
          = Some (Inr ?blended, ?w)"
    unfolding r fuse by (simp only: step cut sum.case option.case)
  with run first show ?thesis by simp
qed

end
